theory Spec2Isabelle
  imports Main "HOL-Library.Word" "HOL-Library.Sublist"
begin

section \<open>The font installer (scripts/install\_fonts.py) and its checker (tests/test\_fonts.py)\<close>

text \<open>
  The installer downloads one font file, checks its SHA-256 digest against a pinned value
  and copies it to three fixed places under the repository root. Everything it does is
  file-system and network traffic, so the model threads an explicit \<open>world\<close> (the file
  system and the two output streams) through every function, and returns Python's
  exceptions as values: a result is \<open>error + 'a\<close>, paired with the world at the moment
  the function returned or raised.
\<close>

subsection \<open>Data\<close>

type_synonym bytes = "8 word list"

text \<open>A path is the list of its components below the file-system root.\<close>

type_synonym path = "string list"

datatype error =
    RuntimeError string
  | OSError string
  | ValueError string
  | AssertionError "nat list"
  | AttributeError
  | TypeError
  | JSONDecodeError
  | TTLibError

text \<open>
  What sits at a path: a regular file that can be read, a file that is there but whose
  \<open>read_bytes\<close> raises \<open>OSError\<close> with the given text, a directory, or a path that cannot
  even be examined because it lies in a directory the process may not search: \<open>stat\<close> on
  it, and every other access, raises \<open>PermissionError\<close> (errno 13).
\<close>

datatype node = File bytes | Unreadable string | Dir | Inaccessible

text \<open>
  \<open>readonly\<close> is the set of paths at which the operating system refuses, for lack of
  permission, to create, write or replace an entry: an attempt raises \<open>PermissionError\<close>.
\<close>

record world =
  fs :: "path \<rightharpoonup> node"
  readonly :: "path set"
  stdout :: "string list"
  stderr :: "string list"

text \<open>
  What the program takes from outside itself: \<open>hashlib.sha256(data).hexdigest()\<close>, the
  directory \<open>Path(__file__).resolve().parent.parent\<close>, and what
  \<open>urlopen(request).read()\<close> answers (\<open>Inl\<close> is the text of a \<open>URLError\<close>).
\<close>

record env =
  sha256_hex :: "bytes \<Rightarrow> string"
  repo_root :: path
  urlopen_read :: "string + bytes"

record args =
  force :: bool
  dry_run :: bool

subsection \<open>Constants\<close>

definition FONT_URL :: string where
  "FONT_URL = ''https://github.com/googlefonts/noto-fonts/raw/main/hinted/ttf/NotoSans/''
     @ ''NotoSans-Regular.ttf''"

definition FONT_SHA256 :: string where
  "FONT_SHA256 = ''b85c38ecea8a7cfb39c24e395a4007474fa5a4fc864f6ee33309eb4948d232d5''"

definition FONT_FILENAME :: string where
  "FONT_FILENAME = ''NotoSans-Regular.ttf''"

definition FONT_TARGETS :: "env \<Rightarrow> path list" where
  "FONT_TARGETS e =
     [repo_root e @ [''OWML_fonts_patch'', ''Fonts'', FONT_FILENAME],
      repo_root e @ [''OWML_fonts_patch'', ''Mods'', ''PacificEngine.CheatsMod'', ''Fonts'',
                     FONT_FILENAME],
      repo_root e @ [''OWML_fonts_patch'', ''Mods'', ''clubby789.OWClock'', ''Fonts'',
                     FONT_FILENAME]]"

subsection \<open>Paths (pathlib)\<close>

text \<open>\<open>str(path)\<close> of an absolute POSIX path.\<close>

definition path_str :: "path \<Rightarrow> string" where
  "path_str p = (if p = [] then ''/'' else concat (map (\<lambda>c. ''/'' @ c) p))"

definition parent :: "path \<Rightarrow> path" where
  "parent p = butlast p"

text \<open>
  \<open>repr\<close> of a \<open>str\<close> whose characters are code points below 256: in single quotes,
  unless the string has a single quote and no double quote; the quote in use and the
  backslash are escaped with a backslash, tab, newline and carriage return are written
  \<open>\t\<close>, \<open>\n\<close>, \<open>\r\<close>, and any other character that is not printable as \<open>\xNN\<close>.
\<close>

definition printable :: "char \<Rightarrow> bool" where
  "printable c = (let n = of_char c :: nat in (32 \<le> n \<and> n < 127) \<or> (161 \<le> n \<and> n \<noteq> 173))"

definition hex_digit :: "nat \<Rightarrow> char" where
  "hex_digit n = ''0123456789abcdef'' ! n"

definition repr_char :: "char \<Rightarrow> char \<Rightarrow> string" where
  "repr_char q c =
     (if c = q \<or> c = CHR 0x5C then [CHR 0x5C, c]
      else if c = CHR 0x09 then [CHR 0x5C, CHR ''t'']
      else if c = CHR 0x0A then [CHR 0x5C, CHR ''n'']
      else if c = CHR 0x0D then [CHR 0x5C, CHR ''r'']
      else if printable c then [c]
      else [CHR 0x5C, CHR ''x'', hex_digit (of_char c div 16), hex_digit (of_char c mod 16)])"

definition py_repr :: "string \<Rightarrow> string" where
  "py_repr s =
     (let q = (if CHR 0x27 \<in> set s \<and> CHR 0x22 \<notin> set s then CHR 0x22 else CHR 0x27)
      in [q] @ concat (map (repr_char q) s) @ [q])"

text \<open>The file name as the text of an \<open>OSError\<close> shows it: \<open>repr\<close> of \<open>str(path)\<close>.\<close>

definition quoted :: "path \<Rightarrow> string" where
  "quoted p = py_repr (path_str p)"

definition permission_denied :: "path \<Rightarrow> string" where
  "permission_denied p = ''[Errno 13] Permission denied: '' @ quoted p"

text \<open>\<open>name.rfind('.')\<close>: the index of the last dot, if there is one.\<close>

fun rfind_dot :: "string \<Rightarrow> nat option" where
  "rfind_dot [] = None"
| "rfind_dot (c # cs) =
     (case rfind_dot cs of
        Some i \<Rightarrow> Some (Suc i)
      | None \<Rightarrow> if c = CHR ''.'' then Some 0 else None)"

text \<open>\<open>PurePath.suffix\<close>: \<open>name[i:]\<close> when \<open>0 < i < len(name) - 1\<close>, else the empty string.\<close>

definition suffix_of :: "string \<Rightarrow> string" where
  "suffix_of name =
     (case rfind_dot name of
        Some i \<Rightarrow> if 0 < i \<and> Suc i < length name then drop i name else []
      | None \<Rightarrow> [])"

text \<open>
  \<open>PurePath.with_suffix\<close>: a path with an empty name raises \<open>ValueError\<close>; otherwise the
  old suffix, if any, is cut off the name and the new one appended.
\<close>

definition with_suffix :: "path \<Rightarrow> string \<Rightarrow> error + path" where
  "with_suffix p sfx =
     (if p = [] \<or> last p = [] then Inl (ValueError (path_str p @ '' has an empty name''))
      else
        let name = last p; old_suffix = suffix_of name
        in if old_suffix = [] then Inr (butlast p @ [name @ sfx])
           else Inr (butlast p @ [take (length name - length old_suffix) name @ sfx]))"

text \<open>\<open>target.with_suffix(target.suffix + ".tmp")\<close>\<close>

definition tmp_path :: "path \<Rightarrow> error + path" where
  "tmp_path target = with_suffix target (suffix_of (last target) @ ''.tmp'')"

subsection \<open>File-system and output primitives\<close>

definition print :: "string \<Rightarrow> world \<Rightarrow> world" where
  "print line w = w\<lparr>stdout := stdout w @ [line]\<rparr>"

definition eprint :: "string \<Rightarrow> world \<Rightarrow> world" where
  "eprint line w = w\<lparr>stderr := stderr w @ [line]\<rparr>"

text \<open>
  \<open>Path.exists()\<close>: False for a missing path, True for an entry; the \<open>OSError\<close> of \<open>stat\<close>
  is swallowed only when it says that the path is not there, so the \<open>PermissionError\<close> of
  a path that cannot be examined comes out of the call (\<open>Inl\<close> is its text).
\<close>

definition path_exists :: "world \<Rightarrow> path \<Rightarrow> string + bool" where
  "path_exists w p =
     (case fs w p of
        None \<Rightarrow> Inr False
      | Some Inaccessible \<Rightarrow> Inl (permission_denied p)
      | Some _ \<Rightarrow> Inr True)"

text \<open>\<open>Path.read_bytes()\<close>; \<open>Inl\<close> is the text of the \<open>OSError\<close> it raises.\<close>

definition read_bytes :: "world \<Rightarrow> path \<Rightarrow> string + bytes" where
  "read_bytes w p =
     (case fs w p of
        Some (File data) \<Rightarrow> Inr data
      | Some (Unreadable exc) \<Rightarrow> Inl exc
      | Some Inaccessible \<Rightarrow> Inl (permission_denied p)
      | Some Dir \<Rightarrow> Inl (''[Errno 21] Is a directory: '' @ quoted p)
      | None \<Rightarrow> Inl (''[Errno 2] No such file or directory: '' @ quoted p))"

text \<open>An entry that a write may replace: nothing yet, or a regular file.\<close>

definition plain :: "node option \<Rightarrow> bool" where
  "plain n = (case n of Some Dir \<Rightarrow> False | Some Inaccessible \<Rightarrow> False | _ \<Rightarrow> True)"

text \<open>
  \<open>Path.mkdir(parents=True, exist_ok=True)\<close> on the path \<open>full\<close>, as the creation of its
  ancestors from the root down: an ancestor that is a directory is left alone and a missing
  one is created unless the system refuses, which raises \<open>PermissionError\<close> naming that
  ancestor. An ancestor that is a file makes the call raise: \<open>FileExistsError\<close> when it is
  \<open>full\<close> itself, \<open>NotADirectoryError\<close> (naming \<open>full\<close>) when it lies above; one that
  cannot be examined makes it raise \<open>PermissionError\<close> naming \<open>full\<close>. The directories
  created before the failing one stay.
\<close>

fun mkdirs :: "path \<Rightarrow> path list \<Rightarrow> world \<Rightarrow> (error + unit) \<times> world" where
  "mkdirs full [] w = (Inr (), w)"
| "mkdirs full (q # qs) w =
     (case fs w q of
        Some Dir \<Rightarrow> mkdirs full qs w
      | Some Inaccessible \<Rightarrow> (Inl (OSError (permission_denied full)), w)
      | Some _ \<Rightarrow>
          (Inl (OSError (if q = full then ''[Errno 17] File exists: '' @ quoted full
                         else ''[Errno 20] Not a directory: '' @ quoted full)), w)
      | None \<Rightarrow>
          if q \<in> readonly w
          then (Inl (OSError (permission_denied q)), w)
          else mkdirs full qs (w\<lparr>fs := (fs w)(q \<mapsto> Dir)\<rparr>))"

definition mkdir_parents :: "path \<Rightarrow> world \<Rightarrow> (error + unit) \<times> world" where
  "mkdir_parents p w = mkdirs p (prefixes p) w"

text \<open>
  \<open>with p.open("wb") as handle: handle.write(data)\<close>: the file is created or truncated and
  holds \<open>data\<close> once the handle is closed. It raises when the system refuses the path,
  when the path is a directory or cannot be examined, or when its parent is not a
  directory.
\<close>

definition open_error :: "world \<Rightarrow> path \<Rightarrow> string" where
  "open_error w p =
     (case fs w p of
        Some Dir \<Rightarrow> ''[Errno 21] Is a directory: '' @ quoted p
      | Some Inaccessible \<Rightarrow> permission_denied p
      | _ \<Rightarrow>
          (case fs w (parent p) of
             Some Dir \<Rightarrow> permission_denied p
           | Some Inaccessible \<Rightarrow> permission_denied p
           | None \<Rightarrow> ''[Errno 2] No such file or directory: '' @ quoted p
           | Some _ \<Rightarrow> ''[Errno 20] Not a directory: '' @ quoted p))"

definition write_bytes :: "path \<Rightarrow> bytes \<Rightarrow> world \<Rightarrow> error + world" where
  "write_bytes p data w =
     (if p \<in> readonly w \<or> \<not> plain (fs w p) \<or> fs w (parent p) \<noteq> Some Dir
      then Inl (OSError (open_error w p))
      else Inr (w\<lparr>fs := (fs w)(p \<mapsto> File data)\<rparr>))"

text \<open>
  \<open>os.replace(src, dst)\<close>: in one step \<open>dst\<close> becomes what \<open>src\<close> was and \<open>src\<close> is gone.
  It raises when \<open>src\<close> is missing, when the system refuses \<open>dst\<close>, or when \<open>dst\<close> is a
  directory or cannot be examined.
\<close>

definition replace_error :: "world \<Rightarrow> path \<Rightarrow> path \<Rightarrow> string" where
  "replace_error w src dst =
     (if fs w src = None
      then ''[Errno 2] No such file or directory: '' @ quoted src @ '' -> '' @ quoted dst
      else
        case fs w dst of
          Some Dir \<Rightarrow> ''[Errno 21] Is a directory: '' @ quoted src @ '' -> '' @ quoted dst
        | _ \<Rightarrow> ''[Errno 13] Permission denied: '' @ quoted src @ '' -> '' @ quoted dst)"

definition replace :: "path \<Rightarrow> path \<Rightarrow> world \<Rightarrow> error + world" where
  "replace src dst w =
     (if fs w src = None \<or> dst \<in> readonly w \<or> \<not> plain (fs w dst)
      then Inl (OSError (replace_error w src dst))
      else Inr (w\<lparr>fs := (fs w)(dst := fs w src, src := None)\<rparr>))"

subsection \<open>install\_fonts.py\<close>

definition sha256_digest :: "env \<Rightarrow> bytes \<Rightarrow> string" where
  "sha256_digest e data = sha256_hex e data"

text \<open>The loop of \<open>existing_font_bytes\<close>, over the targets still to be looked at.\<close>

fun existing_font_bytes_loop ::
  "env \<Rightarrow> path list \<Rightarrow> world \<Rightarrow> (error + bytes option) \<times> world" where
  "existing_font_bytes_loop e [] w = (Inr None, w)"
| "existing_font_bytes_loop e (target # rest) w =
     (case path_exists w target of
        Inl exc \<Rightarrow> (Inl (OSError exc), w)
      | Inr False \<Rightarrow> existing_font_bytes_loop e rest w
      | Inr True \<Rightarrow>
          (case read_bytes w target of
             Inl exc \<Rightarrow>
               existing_font_bytes_loop e rest
                 (eprint (''Warning: could not read '' @ path_str target @ '': '' @ exc) w)
           | Inr data \<Rightarrow>
               let digest = sha256_digest e data
               in if digest = FONT_SHA256 then (Inr (Some data), w)
                  else existing_font_bytes_loop e rest
                         (eprint (''Existing font at '' @ path_str target
                                  @ '' has unexpected hash ('' @ digest @ ''); replacing.'') w)))"

definition existing_font_bytes :: "env \<Rightarrow> world \<Rightarrow> (error + bytes option) \<times> world" where
  "existing_font_bytes e w = existing_font_bytes_loop e (FONT_TARGETS e) w"

definition download_font :: "env \<Rightarrow> error + bytes" where
  "download_font e =
     (case urlopen_read e of
        Inl exc \<Rightarrow> Inl (RuntimeError (''Failed to download '' @ FONT_URL @ '': '' @ exc))
      | Inr payload \<Rightarrow>
          let digest = sha256_digest e payload
          in if digest \<noteq> FONT_SHA256
             then Inl (RuntimeError (''Downloaded font does not match expected SHA-256. ''
                         @ ''Expected '' @ FONT_SHA256 @ '', got '' @ digest @ ''.''))
             else Inr payload)"

text \<open>
  The first half of one iteration of \<open>ensure_targets\<close>: the check of an existing target.
  The flag returned is True when the iteration ends with \<open>continue\<close> (up to date).
  \<open>target.exists()\<close> is the left operand of \<open>and\<close>, so it is evaluated, and may raise,
  whatever \<open>force\<close> is.
\<close>

definition check_existing ::
  "env \<Rightarrow> bool \<Rightarrow> path \<Rightarrow> world \<Rightarrow> (error + bool) \<times> world" where
  "check_existing e force_flag target w =
     (case path_exists w target of
        Inl exc \<Rightarrow> (Inl (OSError exc), w)
      | Inr found \<Rightarrow>
          if found \<and> \<not> force_flag then
            case read_bytes w target of
              Inl exc \<Rightarrow>
                (Inr False,
                 eprint (''Warning: could not read '' @ path_str target @ '': '' @ exc) w)
            | Inr existing \<Rightarrow>
                if sha256_digest e existing = FONT_SHA256
                then (Inr True, print (path_str target @ '': up to date'') w)
                else (Inr False,
                      print (path_str target @ '': checksum mismatch, refreshing'') w)
          else (Inr False, w))"

text \<open>One iteration of the loop of \<open>ensure_targets\<close>.\<close>

definition ensure_target ::
  "env \<Rightarrow> bytes \<Rightarrow> bool \<Rightarrow> bool \<Rightarrow> path \<Rightarrow> world \<Rightarrow> (error + unit) \<times> world" where
  "ensure_target e font_bytes force_flag dry target w =
     (case mkdir_parents (parent target) w of
        (Inl err, w1) \<Rightarrow> (Inl err, w1)
      | (Inr _, w1) \<Rightarrow>
          (case check_existing e force_flag target w1 of
             (Inl err, w2) \<Rightarrow> (Inl err, w2)
           | (Inr True, w2) \<Rightarrow> (Inr (), w2)
           | (Inr False, w2) \<Rightarrow>
               if dry then (Inr (), print (''Would write font to '' @ path_str target) w2)
               else
                 (case tmp_path target of
                    Inl err \<Rightarrow> (Inl err, w2)
                  | Inr tmp \<Rightarrow>
                      (case write_bytes tmp font_bytes w2 of
                         Inl err \<Rightarrow> (Inl err, w2)
                       | Inr w3 \<Rightarrow>
                           (case replace tmp target w3 of
                              Inl err \<Rightarrow> (Inl err, w3)
                            | Inr w4 \<Rightarrow> (Inr (), print (''Wrote '' @ path_str target) w4))))))"

fun ensure_targets_loop ::
  "env \<Rightarrow> bytes \<Rightarrow> bool \<Rightarrow> bool \<Rightarrow> path list \<Rightarrow> world \<Rightarrow> (error + unit) \<times> world" where
  "ensure_targets_loop e font_bytes force_flag dry [] w = (Inr (), w)"
| "ensure_targets_loop e font_bytes force_flag dry (target # rest) w =
     (case ensure_target e font_bytes force_flag dry target w of
        (Inl err, w') \<Rightarrow> (Inl err, w')
      | (Inr _, w') \<Rightarrow> ensure_targets_loop e font_bytes force_flag dry rest w')"

definition ensure_targets ::
  "env \<Rightarrow> bytes \<Rightarrow> bool \<Rightarrow> bool \<Rightarrow> world \<Rightarrow> (error + unit) \<times> world" where
  "ensure_targets e font_bytes force_flag dry w =
     ensure_targets_loop e font_bytes force_flag dry (FONT_TARGETS e) w"

text \<open>
  \<open>main\<close>, from the parsed arguments on (\<open>parse_args\<close> is argparse's; \<open>parse_args([])\<close>
  gives both flags False).
\<close>

definition default_args :: args where
  "default_args = \<lparr>force = False, dry_run = False\<rparr>"

definition main :: "env \<Rightarrow> args \<Rightarrow> world \<Rightarrow> (error + int) \<times> world" where
  "main e a w =
     (case (if force a then (Inr None, w) else existing_font_bytes e w) of
        (Inl err, w1) \<Rightarrow> (Inl err, w1)
      | (Inr (Some font_bytes), w1) \<Rightarrow>
          (case ensure_targets e font_bytes (force a) (dry_run a) w1 of
             (Inl err, w2) \<Rightarrow> (Inl err, w2)
           | (Inr _, w2) \<Rightarrow> (Inr 0, w2))
      | (Inr None, w1) \<Rightarrow>
          (case download_font e of
             Inl err \<Rightarrow> (Inl err, w1)
           | Inr font_bytes \<Rightarrow>
               (case ensure_targets e font_bytes (force a) (dry_run a) w1 of
                  (Inl err, w2) \<Rightarrow> (Inl err, w2)
                | (Inr _, w2) \<Rightarrow> (Inr 0, w2))))"

subsection \<open>The interruptible view of \<open>ensure_targets\<close>\<close>

text \<open>
  The same loop, listing every state the file system passes through on the way: a
  directory created, the temporary file opened (empty), the temporary file holding the
  first \<open>k\<close> bytes of the payload, the rename. A process killed at any moment leaves
  one of these states (or the starting one) behind.
\<close>

type_synonym fsmap = "path \<rightharpoonup> node"

fun mkdirs_trace :: "path list \<Rightarrow> world \<Rightarrow> fsmap list" where
  "mkdirs_trace [] w = []"
| "mkdirs_trace (q # qs) w =
     (case fs w q of
        Some Dir \<Rightarrow> mkdirs_trace qs w
      | Some _ \<Rightarrow> []
      | None \<Rightarrow>
          if q \<in> readonly w then []
          else (fs w)(q \<mapsto> Dir) # mkdirs_trace qs (w\<lparr>fs := (fs w)(q \<mapsto> Dir)\<rparr>))"

definition write_bytes_trace :: "path \<Rightarrow> bytes \<Rightarrow> world \<Rightarrow> fsmap list" where
  "write_bytes_trace p data w =
     (if p \<in> readonly w \<or> \<not> plain (fs w p) \<or> fs w (parent p) \<noteq> Some Dir then []
      else map (\<lambda>k. (fs w)(p \<mapsto> File (take k data))) [0..<Suc (length data)])"

definition ensure_target_trace ::
  "env \<Rightarrow> bytes \<Rightarrow> bool \<Rightarrow> bool \<Rightarrow> path \<Rightarrow> world \<Rightarrow> fsmap list" where
  "ensure_target_trace e font_bytes force_flag dry target w =
     mkdirs_trace (prefixes (parent target)) w @
     (case mkdir_parents (parent target) w of
        (Inl err, w1) \<Rightarrow> []
      | (Inr _, w1) \<Rightarrow>
          (case check_existing e force_flag target w1 of
             (Inl err, w2) \<Rightarrow> []
           | (Inr True, w2) \<Rightarrow> []
           | (Inr False, w2) \<Rightarrow>
               if dry then []
               else
                 (case tmp_path target of
                    Inl err \<Rightarrow> []
                  | Inr tmp \<Rightarrow>
                      write_bytes_trace tmp font_bytes w2 @
                      (case write_bytes tmp font_bytes w2 of
                         Inl err \<Rightarrow> []
                       | Inr w3 \<Rightarrow>
                           (case replace tmp target w3 of
                              Inl err \<Rightarrow> []
                            | Inr w4 \<Rightarrow> [fs w4])))))"

fun ensure_targets_loop_trace ::
  "env \<Rightarrow> bytes \<Rightarrow> bool \<Rightarrow> bool \<Rightarrow> path list \<Rightarrow> world \<Rightarrow> fsmap list" where
  "ensure_targets_loop_trace e font_bytes force_flag dry [] w = []"
| "ensure_targets_loop_trace e font_bytes force_flag dry (target # rest) w =
     ensure_target_trace e font_bytes force_flag dry target w @
     (case ensure_target e font_bytes force_flag dry target w of
        (Inl err, w') \<Rightarrow> []
      | (Inr _, w') \<Rightarrow> ensure_targets_loop_trace e font_bytes force_flag dry rest w')"

definition ensure_targets_trace ::
  "env \<Rightarrow> bytes \<Rightarrow> bool \<Rightarrow> bool \<Rightarrow> world \<Rightarrow> fsmap list" where
  "ensure_targets_trace e font_bytes force_flag dry w =
     ensure_targets_loop_trace e font_bytes force_flag dry (FONT_TARGETS e) w"

subsection \<open>test\_fonts.py\<close>

text \<open>A Python \<open>str\<close> that may hold Cyrillic letters is the list of its code points.\<close>

type_synonym ustring = "nat list"

definition ustr :: "string \<Rightarrow> ustring" where
  "ustr s = map of_char s"

text \<open>
  A parsed JSON document. \<open>JObj\<close> holds the items of the Python dict in order; the code
  never looks into a number.
\<close>

datatype json =
    JNull
  | JBool bool
  | JNum
  | JStr ustring
  | JArr "json list"
  | JObj "(ustring \<times> json) list"

text \<open>
  The libraries the checker calls: \<open>unicodedata.name(char, "")\<close>, \<open>json.load\<close> on the
  bytes of a file (\<open>None\<close>: the parser raises), and
  \<open>TTFont(path).getBestCmap()\<close> on the bytes of a font file (\<open>None\<close>: fontTools raises;
  \<open>Some None\<close>: the font has no Unicode character map).
\<close>

record libs =
  unicode_name :: "nat \<Rightarrow> string"
  json_load :: "bytes \<Rightarrow> json option"
  best_cmap :: "bytes \<Rightarrow> (nat \<rightharpoonup> string) option option"

definition iter_cyrillic_characters :: "libs \<Rightarrow> ustring list \<Rightarrow> nat set" where
  "iter_cyrillic_characters l strings =
     fold (\<lambda>text characters.
             fold (\<lambda>char characters.
                     if sublist ''CYRILLIC'' (unicode_name l char)
                     then insert char characters else characters)
                  text characters)
          strings {}"

definition load_json :: "libs \<Rightarrow> world \<Rightarrow> path \<Rightarrow> error + json" where
  "load_json l w p =
     (case read_bytes w p of
        Inl exc \<Rightarrow> Inl (OSError exc)
      | Inr data \<Rightarrow>
          (case json_load l data of None \<Rightarrow> Inl JSONDecodeError | Some j \<Rightarrow> Inr j))"

text \<open>The strings one section of \<open>settings\<close> contributes.\<close>

definition section_texts :: "json \<Rightarrow> ustring list" where
  "section_texts section =
     (case section of
        JObj items \<Rightarrow>
          concat (map (\<lambda>(key, value). case value of JStr s \<Rightarrow> [s] | _ \<Rightarrow> []) items)
      | JStr s \<Rightarrow> [s]
      | _ \<Rightarrow> [])"

text \<open>
  \<open>for section in config.get("settings", {}).values(): ...\<close>; \<open>.get\<close> exists on a dict
  only, and so does \<open>.values\<close>.
\<close>

definition settings_texts :: "json \<Rightarrow> error + ustring list" where
  "settings_texts config =
     (case config of
        JObj items \<Rightarrow>
          (case map_of items (ustr ''settings'') of
             None \<Rightarrow> Inr []
           | Some (JObj sections) \<Rightarrow> Inr (concat (map (\<lambda>(key, section). section_texts section) sections))
           | Some _ \<Rightarrow> Inl AttributeError)
      | _ \<Rightarrow> Inl AttributeError)"

fun entry_names :: "json list \<Rightarrow> error + ustring list" where
  "entry_names [] = Inr []"
| "entry_names (entry # rest) =
     (case entry of
        JObj items \<Rightarrow>
          (case entry_names rest of
             Inl err \<Rightarrow> Inl err
           | Inr names \<Rightarrow>
               Inr ((case map_of items (ustr ''Name'') of Some (JStr name) \<Rightarrow> [name] | _ \<Rightarrow> [])
                    @ names))
      | _ \<Rightarrow> Inl AttributeError)"

text \<open>
  \<open>for entry in events.get("eventList", []): name = entry.get("Name") ...\<close>. Iterating
  over a dict gives its keys and over a string its characters, neither of which has
  \<open>.get\<close>; a number, a boolean or null cannot be iterated over.
\<close>

definition event_names :: "json \<Rightarrow> error + ustring list" where
  "event_names events =
     (case events of
        JObj items \<Rightarrow>
          (case map_of items (ustr ''eventList'') of
             None \<Rightarrow> Inr []
           | Some (JArr entries) \<Rightarrow> entry_names entries
           | Some (JObj keys) \<Rightarrow> if keys = [] then Inr [] else Inl AttributeError
           | Some (JStr s) \<Rightarrow> if s = [] then Inr [] else Inl AttributeError
           | Some _ \<Rightarrow> Inl TypeError)
      | _ \<Rightarrow> Inl AttributeError)"

text \<open>The literal appended to the texts: the Russian alphabet, upper case then lower case.\<close>

definition ALPHABET :: ustring where
  "ALPHABET =
     [1040, 1041, 1042, 1043, 1044, 1045, 1025, 1046, 1047, 1048, 1049, 1050, 1051, 1052,
      1053, 1054, 1055, 1056, 1057, 1058, 1059, 1060, 1061, 1062, 1063, 1064, 1065, 1066,
      1067, 1068, 1069, 1070, 1071,
      1072, 1073, 1074, 1075, 1076, 1077, 1105, 1078, 1079, 1080, 1081, 1082, 1083, 1084,
      1085, 1086, 1087, 1088, 1089, 1090, 1091, 1092, 1093, 1094, 1095, 1096, 1097, 1098,
      1099, 1100, 1101, 1102, 1103]"

definition cheats_config :: "env \<Rightarrow> path" where
  "cheats_config e =
     repo_root e @ [''OWML_fonts_patch'', ''Mods'', ''PacificEngine.CheatsMod'', ''config.json'']"

definition clock_config :: "env \<Rightarrow> path" where
  "clock_config e =
     repo_root e @ [''OWML_fonts_patch'', ''Mods'', ''clubby789.OWClock'', ''config.json'']"

definition clock_events :: "env \<Rightarrow> path" where
  "clock_events e =
     repo_root e @ [''OWML_fonts_patch'', ''Mods'', ''clubby789.OWClock'', ''events.json'']"

definition load_required_characters :: "libs \<Rightarrow> env \<Rightarrow> world \<Rightarrow> error + nat set" where
  "load_required_characters l e w =
     (case load_json l w (cheats_config e) of
        Inl err \<Rightarrow> Inl err
      | Inr config1 \<Rightarrow>
     (case settings_texts config1 of
        Inl err \<Rightarrow> Inl err
      | Inr texts1 \<Rightarrow>
     (case load_json l w (clock_config e) of
        Inl err \<Rightarrow> Inl err
      | Inr config2 \<Rightarrow>
     (case settings_texts config2 of
        Inl err \<Rightarrow> Inl err
      | Inr texts2 \<Rightarrow>
     (case load_json l w (clock_events e) of
        Inl err \<Rightarrow> Inl err
      | Inr events \<Rightarrow>
     (case event_names events of
        Inl err \<Rightarrow> Inl err
      | Inr texts3 \<Rightarrow>
          Inr (iter_cyrillic_characters l (texts1 @ texts2 @ texts3 @ [ALPHABET]))))))))"

text \<open>
  \<open>verify_font_contains\<close>. \<open>sorted(required_chars)\<close> orders the one-character strings by
  code point; the assertion's message ends with the missing characters joined.
\<close>

definition verify_font_contains :: "libs \<Rightarrow> world \<Rightarrow> path \<Rightarrow> nat set \<Rightarrow> error + unit" where
  "verify_font_contains l w font_path required_chars =
     (case read_bytes w font_path of
        Inl exc \<Rightarrow> Inl (OSError exc)
      | Inr data \<Rightarrow>
          (case best_cmap l data of
             None \<Rightarrow> Inl TTLibError
           | Some best \<Rightarrow>
               let cmap = (case best of None \<Rightarrow> Map.empty | Some m \<Rightarrow> m);
                   missing = filter (\<lambda>char. cmap char = None)
                               (sorted_list_of_set required_chars)
               in if missing = [] then Inr ()
                  else Inl (AssertionError
                         (ustr (path_str font_path) @ ustr '' is missing glyphs for: ''
                          @ missing))))"

text \<open>The loop of the checker's \<open>main\<close> over the targets.\<close>

fun check_targets :: "libs \<Rightarrow> env \<Rightarrow> path list \<Rightarrow> nat set \<Rightarrow> world \<Rightarrow> error + unit" where
  "check_targets l e [] required w = Inr ()"
| "check_targets l e (target # rest) required w =
     (case path_exists w target of
        Inl exc \<Rightarrow> Inl (OSError exc)
      | Inr False \<Rightarrow> Inl (AssertionError (ustr (''Expected font at '' @ path_str target)))
      | Inr True \<Rightarrow>
          (case read_bytes w target of
             Inl exc \<Rightarrow> Inl (OSError exc)
           | Inr data \<Rightarrow>
               let digest = sha256_digest e data
               in if digest \<noteq> FONT_SHA256
                  then Inl (AssertionError
                         (ustr (''Unexpected font hash at '' @ path_str target @ '': '' @ digest)))
                  else
                    (case verify_font_contains l w target required of
                       Inl err \<Rightarrow> Inl err
                     | Inr _ \<Rightarrow> check_targets l e rest required w)))"

definition test_fonts_main :: "libs \<Rightarrow> env \<Rightarrow> world \<Rightarrow> (error + unit) \<times> world" where
  "test_fonts_main l e w =
     (case main e default_args w of
        (Inl err, w1) \<Rightarrow> (Inl err, w1)
      | (Inr _, w1) \<Rightarrow>
          (case load_required_characters l e w1 of
             Inl err \<Rightarrow> (Inl err, w1)
           | Inr required \<Rightarrow>
               if required = {}
               then (Inl (AssertionError
                       (ustr ''Did not detect any Cyrillic characters to verify.'')), w1)
               else
                 (case check_targets l e (FONT_TARGETS e) required w1 of
                    Inl err \<Rightarrow> (Inl err, w1)
                  | Inr _ \<Rightarrow>
                      (Inr (), print ''All fonts include the required Cyrillic glyphs.'' w1))))"

subsection \<open>Notions used in the statements\<close>

text \<open>A target holds a valid copy: a readable file whose digest is the pinned one.\<close>

definition valid_copy :: "env \<Rightarrow> world \<Rightarrow> path \<Rightarrow> bool" where
  "valid_copy e w t =
     (case fs w t of Some (File data) \<Rightarrow> sha256_digest e data = FONT_SHA256 | _ \<Rightarrow> False)"

definition file_bytes :: "world \<Rightarrow> path \<Rightarrow> bytes option" where
  "file_bytes w t = (case fs w t of Some (File data) \<Rightarrow> Some data | _ \<Rightarrow> None)"

text \<open>
  What the cache probe writes to stderr about a path that it gets past: nothing for a
  missing one, one warning for a file with another digest, for a file whose read raises
  and for a directory.
\<close>

definition probe_warning :: "env \<Rightarrow> world \<Rightarrow> path \<Rightarrow> string list" where
  "probe_warning e w t =
     (case fs w t of
        None \<Rightarrow> []
      | Some (File data) \<Rightarrow>
          [''Existing font at '' @ path_str t @ '' has unexpected hash (''
             @ sha256_digest e data @ ''); replacing.'']
      | Some (Unreadable exc) \<Rightarrow> [''Warning: could not read '' @ path_str t @ '': '' @ exc]
      | Some Dir \<Rightarrow>
          [''Warning: could not read '' @ path_str t @ '': ''
             @ ''[Errno 21] Is a directory: '' @ quoted t]
      | Some Inaccessible \<Rightarrow> [])"

text \<open>
  Where the probe stops: at a valid copy, which it returns, or at a path that cannot be
  examined, where \<open>exists()\<close> raises.
\<close>

definition exists_raises :: "world \<Rightarrow> path \<Rightarrow> bool" where
  "exists_raises w t = (fs w t = Some Inaccessible)"

definition stops_probe :: "env \<Rightarrow> world \<Rightarrow> path \<Rightarrow> bool" where
  "stops_probe e w t = (valid_copy e w t \<or> exists_raises w t)"

definition probe_result :: "env \<Rightarrow> world \<Rightarrow> path list \<Rightarrow> error + bytes option" where
  "probe_result e w ts =
     (case find (stops_probe e w) ts of
        None \<Rightarrow> Inr None
      | Some t \<Rightarrow>
          if exists_raises w t then Inl (OSError (permission_denied t))
          else Inr (file_bytes w t))"

text \<open>
  What one iteration of \<open>ensure_targets\<close> does with a target, read off the state the target
  is in: it is skipped when not forced and already valid; otherwise it is written (or, in a
  dry run, reported), after a "checksum mismatch" line when it was readable and a warning on
  stderr when it was not.
\<close>

definition skipped :: "env \<Rightarrow> bool \<Rightarrow> world \<Rightarrow> path \<Rightarrow> bool" where
  "skipped e force_flag w t = (\<not> force_flag \<and> valid_copy e w t)"

definition status_lines :: "env \<Rightarrow> bool \<Rightarrow> bool \<Rightarrow> world \<Rightarrow> path \<Rightarrow> string list" where
  "status_lines e force_flag dry w t =
     (if skipped e force_flag w t then [path_str t @ '': up to date'']
      else (if \<not> force_flag \<and> file_bytes w t \<noteq> None
            then [path_str t @ '': checksum mismatch, refreshing''] else [])
           @ [if dry then ''Would write font to '' @ path_str t else ''Wrote '' @ path_str t])"

definition warning_lines :: "bool \<Rightarrow> world \<Rightarrow> path \<Rightarrow> string list" where
  "warning_lines force_flag w t =
     (if force_flag then []
      else case fs w t of
             Some (Unreadable exc) \<Rightarrow> [''Warning: could not read '' @ path_str t @ '': '' @ exc]
           | Some Dir \<Rightarrow>
               [''Warning: could not read '' @ path_str t @ '': ''
                  @ ''[Errno 21] Is a directory: '' @ quoted t]
           | _ \<Rightarrow> [])"

text \<open>
  What the proofs need of a list of targets: no target twice, none empty, none an ancestor
  of another's directory, and no temporary sibling of one is itself a target.
\<close>

definition layout :: "path list \<Rightarrow> bool" where
  "layout ts =
     (distinct ts \<and> (\<forall>t\<in>set ts. t \<noteq> []) \<and>
      (\<forall>t\<in>set ts. \<forall>t'\<in>set ts. \<not> prefix t (parent t') \<and> tmp_path t \<noteq> Inr t'))"

text \<open>
  A small concrete installation for trying the functions out: the repository sits at
  \<open>/repo\<close>, the digest function accepts exactly the three bytes \<open>1 2 3\<close>, and the server
  answers with them.
\<close>

definition good_font :: bytes where
  "good_font = [1, 2, 3]"

definition env0 :: env where
  "env0 = \<lparr>sha256_hex = (\<lambda>data. if data = good_font then FONT_SHA256 else ''00''),
           repo_root = [''repo''],
           urlopen_read = Inr good_font\<rparr>"

definition target1 :: path where
  "target1 = [''repo'', ''OWML_fonts_patch'', ''Fonts'', ''NotoSans-Regular.ttf'']"

definition target2 :: path where
  "target2 = [''repo'', ''OWML_fonts_patch'', ''Mods'', ''PacificEngine.CheatsMod'', ''Fonts'',
              ''NotoSans-Regular.ttf'']"

definition target3 :: path where
  "target3 = [''repo'', ''OWML_fonts_patch'', ''Mods'', ''clubby789.OWClock'', ''Fonts'',
              ''NotoSans-Regular.ttf'']"

definition empty_world :: world where
  "empty_world = \<lparr>fs = Map.empty, readonly = {}, stdout = [], stderr = []\<rparr>"

text \<open>A world whose first target cannot be read, whose second is stale and whose third is valid.\<close>

definition mixed_world :: world where
  "mixed_world =
     \<lparr>fs = [target1 \<mapsto> Unreadable ''denied'', target2 \<mapsto> File [9], target3 \<mapsto> File good_font],
      readonly = {}, stdout = [], stderr = []\<rparr>"

definition bad_env :: env where
  "bad_env = \<lparr>sha256_hex = (\<lambda>data. if data = good_font then FONT_SHA256 else ''00''),
           repo_root = [''repo''],
           urlopen_read = Inr [9]\<rparr>"

text \<open>
  Nothing stands in the way of a run: the system refuses no path, every ancestor of a
  target's directory is missing or a directory, and a target and its temporary sibling
  are each missing or a file.
\<close>

definition unobstructed :: "world \<Rightarrow> path list \<Rightarrow> bool" where
  "unobstructed w ts =
     (readonly w = {} \<and>
      (\<forall>t\<in>set ts.
         (\<forall>q\<in>set (prefixes (parent t)). fs w q = None \<or> fs w q = Some Dir)
         \<and> plain (fs w t)
         \<and> (case tmp_path t of Inr tmp \<Rightarrow> plain (fs w tmp) | Inl _ \<Rightarrow> False)))"

definition layout2 :: "path list \<Rightarrow> bool" where
  "layout2 ts =
     (layout ts \<and>
      (\<forall>t\<in>set ts. \<forall>t'\<in>set ts.
         case tmp_path t of Inr tmp \<Rightarrow> \<not> prefix tmp (parent t') | Inl _ \<Rightarrow> True))"

definition dry_args :: args where
  "dry_args = \<lparr>force = False, dry_run = True\<rparr>"

text \<open>
  What \<open>mkdir(parents=True, exist_ok=True)\<close> needs of a path to succeed: each of its
  ancestors, and the path itself, is a directory already or is missing where the system
  lets one be created. An iteration of \<open>ensure_targets\<close> gets as far as deciding what to
  do with its target when its directory can be made and \<open>exists()\<close> does not raise.
\<close>

definition can_mkdir :: "world \<Rightarrow> path \<Rightarrow> bool" where
  "can_mkdir w p =
     (\<forall>q\<in>set (prefixes p). fs w q = Some Dir \<or> (fs w q = None \<and> q \<notin> readonly w))"

definition passable :: "world \<Rightarrow> path \<Rightarrow> bool" where
  "passable w t = (can_mkdir w (parent t) \<and> \<not> exists_raises w t)"

text \<open>What a run that took the world from \<open>w\<close> to \<open>w'\<close> printed on stdout.\<close>

definition new_lines :: "world \<Rightarrow> world \<Rightarrow> string list" where
  "new_lines w w' = drop (length (stdout w)) (stdout w')"

text \<open>
  The line a dry run prints in place of a line of the real run: the report of a write
  becomes the report of an intended write, every other line stays.
\<close>

definition intended :: "string \<Rightarrow> string" where
  "intended l = (if take 6 l = ''Wrote '' then ''Would write font to '' @ drop 6 l else l)"


definition blocked_world :: world where
  "blocked_world =
     \<lparr>fs = [[''repo'', ''OWML_fonts_patch'', ''Mods''] \<mapsto> File []],
      readonly = {}, stdout = [], stderr = []\<rparr>"

text \<open>
  \<open>main\<close> gets as far as \<open>ensure_targets\<close>: the probe did not raise, and it found a valid
  copy or the download succeeded.
\<close>

definition distributes :: "env \<Rightarrow> args \<Rightarrow> world \<Rightarrow> bool" where
  "distributes e a w =
     (case (if force a then (Inr None, w) else existing_font_bytes e w) of
        (Inl err, w1) \<Rightarrow> False
      | (Inr (Some font_bytes), w1) \<Rightarrow> True
      | (Inr None, w1) \<Rightarrow> (case download_font e of Inl err \<Rightarrow> False | Inr font_bytes \<Rightarrow> True))"

text \<open>
  The targets whose iteration a dry run gets to: those before the first one that is not
  passable, and that one.
\<close>

definition reached :: "world \<Rightarrow> path list \<Rightarrow> path list" where
  "reached w ts = takeWhile (passable w) ts @ take 1 (dropWhile (passable w) ts)"

section \<open>Verification\<close>

subsection \<open>The cache probe\<close>

lemma FONT_TARGETS_env0: "FONT_TARGETS env0 = [target1, target2, target3]"
  by (simp add: FONT_TARGETS_def env0_def target1_def target2_def target3_def FONT_FILENAME_def)


lemma targets_distinct:
  "target1 \<noteq> target2" "target1 \<noteq> target3" "target2 \<noteq> target3"
  "target2 \<noteq> target1" "target3 \<noteq> target1" "target3 \<noteq> target2"
  by (simp_all add: target1_def target2_def target3_def)



lemma path_str_targets:
  "path_str target1 = ''/repo/OWML_fonts_patch/Fonts/NotoSans-Regular.ttf''"
  "path_str target2 =
     ''/repo/OWML_fonts_patch/Mods/PacificEngine.CheatsMod/Fonts/NotoSans-Regular.ttf''"
  "path_str target3 =
     ''/repo/OWML_fonts_patch/Mods/clubby789.OWClock/Fonts/NotoSans-Regular.ttf''"
  by (simp_all add: path_str_def target1_def target2_def target3_def)


lemma probe_loop_char:
  "existing_font_bytes_loop e ts w =
     (probe_result e w ts,
      w\<lparr>stderr := stderr w
           @ concat (map (probe_warning e w) (takeWhile (Not \<circ> stops_probe e w) ts))\<rparr>)"
proof (induction ts arbitrary: w)
  case Nil
  show ?case by (simp add: probe_result_def)
next
  case (Cons t ts)
  have frame0: "\<And>l. stops_probe e (eprint l w) = stops_probe e w"
     "\<And>l. exists_raises (eprint l w) = exists_raises w"
     "\<And>l. file_bytes (eprint l w) = file_bytes w"
     "\<And>l. probe_warning e (eprint l w) = probe_warning e w"
    by (simp_all add: stops_probe_def exists_raises_def valid_copy_def file_bytes_def
        probe_warning_def eprint_def fun_eq_iff)
  have frame: "\<And>l. stops_probe e (eprint l w) = stops_probe e w"
     "\<And>l. probe_result e (eprint l w) ts = probe_result e w ts"
     "\<And>l. probe_warning e (eprint l w) = probe_warning e w"
    by (simp_all add: frame0 probe_result_def cong: option.case_cong if_cong)
  show ?case
  proof (cases "fs w t")
    case None
    then show ?thesis
      by (simp add: Cons.IH path_exists_def stops_probe_def exists_raises_def valid_copy_def
          probe_warning_def probe_result_def)
  next
    case (Some n)
    then show ?thesis
      by (cases n;
          simp add: Cons.IH frame path_exists_def read_bytes_def Let_def;
          (simp add: stops_probe_def exists_raises_def valid_copy_def file_bytes_def
             probe_warning_def probe_result_def eprint_def)?)
  qed
qed




subsection \<open>Paths and directories\<close>

lemma rfind_dot_bound: "rfind_dot s = Some i \<Longrightarrow> i < length s"
  by (induction s arbitrary: i) (auto split: option.splits if_splits)

lemma tmp_path_eq:
  "tmp_path t = Inr tmp \<Longrightarrow> t \<noteq> [] \<and> tmp = butlast t @ [last t @ ''.tmp'']"
proof -
  assume a: "tmp_path t = Inr tmp"
  have ne: "t \<noteq> []" "last t \<noteq> []" using a by (auto simp: tmp_path_def with_suffix_def split: if_splits)
  have "take (length (last t) - length (suffix_of (last t))) (last t) @ suffix_of (last t) = last t"
    by (auto simp: suffix_of_def split: option.splits dest: rfind_dot_bound)
  with a ne show ?thesis
    by (auto simp: tmp_path_def with_suffix_def Let_def split: if_splits)
qed

lemma tmp_path_neq: "tmp_path t = Inr tmp \<Longrightarrow> tmp \<noteq> t"
proof
  assume a: "tmp_path t = Inr tmp" and "tmp = t"
  with tmp_path_eq[OF a] have "t = butlast t @ [last t @ ''.tmp'']" "t \<noteq> []" by auto
  then have "last t = last (butlast t @ [last t @ ''.tmp''])" by simp
  then show False by simp
qed

lemma tmp_path_parent: "tmp_path t = Inr tmp \<Longrightarrow> parent tmp = parent t"
  by (auto dest: tmp_path_eq simp: parent_def)

lemma tmp_path_ok: "t \<noteq> [] \<Longrightarrow> last t \<noteq> [] \<Longrightarrow> \<exists>tmp. tmp_path t = Inr tmp"
  by (simp add: tmp_path_def with_suffix_def Let_def)

lemma tmp_path_error: "tmp_path t = Inl err \<Longrightarrow> \<exists>msg. err = ValueError msg"
  by (auto simp: tmp_path_def with_suffix_def Let_def split: if_splits)

lemma mkdirs_shape: "mkdirs full qs w = (r, w') \<Longrightarrow> w' = w\<lparr>fs := fs w'\<rparr>"
  by (induction full qs w rule: mkdirs.induct) (auto split: option.splits node.splits if_splits)

lemma mkdirs_frame:
  "mkdirs full qs w = (r, w') \<Longrightarrow>
     fs w' p = fs w p
     \<or> (fs w p = None \<and> p \<notin> readonly w \<and> fs w' p = Some Dir \<and> p \<in> set qs)"
  by (induction full qs w rule: mkdirs.induct) (auto split: option.splits node.splits if_splits)

lemma mkdirs_keeps_dir:
  "mkdirs full qs w = (r, w') \<Longrightarrow> fs w p = Some Dir \<Longrightarrow> fs w' p = Some Dir"
  using mkdirs_frame[of full qs w r w' p] by auto

lemma mkdirs_made: "mkdirs full qs w = (Inr u, w') \<Longrightarrow> q \<in> set qs \<Longrightarrow> fs w' q = Some Dir"
proof (induction full qs w rule: mkdirs.induct)
  case (1 full w) then show ?case by simp
next
  case (2 full q' qs w)
  show ?case
  proof (cases "q = q'")
    case True
    with 2 show ?thesis
      by (auto split: option.splits node.splits if_splits dest: mkdirs_keeps_dir)
  next
    case False
    with 2 show ?thesis by (auto split: option.splits node.splits if_splits)
  qed
qed

lemma mkdirs_noop:
  "\<forall>q\<in>set qs. fs w q = Some Dir \<Longrightarrow> mkdirs full qs w = (Inr (), w) \<and> mkdirs_trace qs w = []"
  by (induction qs) auto

lemma mkdirs_error: "mkdirs full qs w = (Inl err, w1) \<Longrightarrow> \<exists>msg. err = OSError msg"
  by (induction full qs w rule: mkdirs.induct) (auto split: option.splits node.splits if_splits)

lemma mkdirs_ok_iff:
  "(fst (mkdirs full qs w) = Inr ()) =
     (\<forall>q\<in>set qs. fs w q = Some Dir \<or> (fs w q = None \<and> q \<notin> readonly w))"
proof (induction full qs w rule: mkdirs.induct)
  case (1 full w)
  show ?case by simp
next
  case (2 full q qs w)
  show ?case
  proof (cases "fs w q")
    case None
    show ?thesis
    proof (cases "q \<in> readonly w")
      case True
      with None show ?thesis by simp
    next
      case False
      have "(fst (mkdirs full qs (w\<lparr>fs := (fs w)(q \<mapsto> Dir)\<rparr>)) = Inr ()) =
          (\<forall>q'\<in>set qs. fs (w\<lparr>fs := (fs w)(q \<mapsto> Dir)\<rparr>) q' = Some Dir
             \<or> (fs (w\<lparr>fs := (fs w)(q \<mapsto> Dir)\<rparr>) q' = None
                 \<and> q' \<notin> readonly (w\<lparr>fs := (fs w)(q \<mapsto> Dir)\<rparr>)))"
        using 2(1)[OF None False] .
      also have "\<dots> = (\<forall>q'\<in>set qs. fs w q' = Some Dir \<or> (fs w q' = None \<and> q' \<notin> readonly w))"
        using None False by auto
      finally show ?thesis using None False by simp
    qed
  next
    case (Some n)
    then show ?thesis using 2(2) by (cases n) simp_all
  qed
qed

lemma not_in_prefixes_butlast: "t \<noteq> [] \<Longrightarrow> t \<notin> set (prefixes (butlast t))"
proof
  assume "t \<noteq> []" "t \<in> set (prefixes (butlast t))"
  then have "prefix t (butlast t)" by (simp add: in_set_prefixes)
  then have "length t \<le> length (butlast t)" by (rule prefix_length_le)
  with \<open>t \<noteq> []\<close> show False by (cases t rule: rev_cases) auto
qed

lemma mkdir_parents_shape:
  assumes "mkdir_parents p w = (r, w1)"
  shows "stdout w1 = stdout w" "stderr w1 = stderr w" "readonly w1 = readonly w"
proof -
  have eq: "w1 = w\<lparr>fs := fs w1\<rparr>" using assms mkdirs_shape by (simp add: mkdir_parents_def)
  show "stdout w1 = stdout w" using arg_cong[OF eq, of stdout] by simp
  show "stderr w1 = stderr w" using arg_cong[OF eq, of stderr] by simp
  show "readonly w1 = readonly w" using arg_cong[OF eq, of readonly] by simp
qed

lemma mkdir_parents_frame:
  assumes "mkdir_parents p w = (r, w1)"
  shows "fs w1 q = fs w q
         \<or> (fs w q = None \<and> q \<notin> readonly w \<and> fs w1 q = Some Dir \<and> prefix q p)"
  using mkdirs_frame[of p "prefixes p" w r w1 q] assms
  by (auto simp: mkdir_parents_def in_set_prefixes)

lemma mkdir_parents_target:
  assumes "mkdir_parents (parent t) w = (r, w1)" "t \<noteq> []"
  shows "fs w1 t = fs w t"
  using mkdirs_frame[of "parent t" "prefixes (parent t)" w r w1 t] assms
    not_in_prefixes_butlast[of t]
  by (auto simp: mkdir_parents_def parent_def)

lemma mkdir_parents_keeps_dir:
  "mkdir_parents p w = (r, w1) \<Longrightarrow> fs w q = Some Dir \<Longrightarrow> fs w1 q = Some Dir"
  using mkdir_parents_frame[of p w r w1 q] by auto

lemma mkdir_parents_made:
  "mkdir_parents p w = (Inr u, w1) \<Longrightarrow> prefix q p \<Longrightarrow> fs w1 q = Some Dir"
  using mkdirs_made[of p "prefixes p" w u w1 q] by (simp add: mkdir_parents_def in_set_prefixes)

lemma mkdir_parents_ok_iff: "(fst (mkdir_parents p w) = Inr ()) = can_mkdir w p"
  by (simp add: mkdir_parents_def can_mkdir_def mkdirs_ok_iff)

lemma mkdir_parents_Inr: "mkdir_parents p w = (Inr u, w1) \<Longrightarrow> can_mkdir w p"
  using mkdir_parents_ok_iff[of p w] by simp

lemma mkdir_parents_Inl:
  "mkdir_parents p w = (Inl err, w1) \<Longrightarrow> \<not> can_mkdir w p \<and> (\<exists>msg. err = OSError msg)"
  using mkdir_parents_ok_iff[of p w] mkdirs_error[of p "prefixes p" w err w1]
  by (simp add: mkdir_parents_def)

subsection \<open>One iteration of \<open>ensure_targets\<close>\<close>

lemma check_existing_char:
  assumes "check_existing e f t w1 = (rb, w2)"
  shows "fs w2 = fs w1" "readonly w2 = readonly w1"
    "rb = (if exists_raises w1 t then Inl (OSError (permission_denied t))
           else Inr (skipped e f w1 t))"
    "stdout w2 = stdout w1 @
       (if skipped e f w1 t then [path_str t @ '': up to date'']
        else if \<not> f \<and> file_bytes w1 t \<noteq> None
             then [path_str t @ '': checksum mismatch, refreshing''] else [])"
    "stderr w2 = stderr w1 @ warning_lines f w1 t"
  using assms
  by (auto simp: check_existing_def skipped_def valid_copy_def file_bytes_def warning_lines_def
      exists_raises_def path_exists_def read_bytes_def print_def eprint_def
      split: if_splits option.splits node.splits sum.splits)

lemma write_bytes_Inr:
  "write_bytes p data w = Inr w3 \<Longrightarrow>
     w3 = w\<lparr>fs := (fs w)(p \<mapsto> File data)\<rparr> \<and> p \<notin> readonly w \<and> plain (fs w p)
     \<and> fs w (parent p) = Some Dir"
  by (auto simp: write_bytes_def split: if_splits)

lemma write_bytes_Inl: "write_bytes p data w = Inl err \<Longrightarrow> write_bytes_trace p data w = []"
  by (auto simp: write_bytes_def write_bytes_trace_def split: if_splits)

lemma replace_Inr:
  "replace src dst w = Inr w4 \<Longrightarrow>
     w4 = w\<lparr>fs := (fs w)(dst := fs w src, src := None)\<rparr> \<and> fs w src \<noteq> None
     \<and> dst \<notin> readonly w \<and> plain (fs w dst)"
  by (auto simp: replace_def split: if_splits)

lemma plain_not_dir: "plain n \<Longrightarrow> n \<noteq> Some Dir"
  by (auto simp: plain_def)

lemma ensure_target_cases [consumes 1, case_names mkdir_failed exists_failed up_to_date dry
    no_tmp write_failed replace_failed wrote]:
  assumes "ensure_target e fb f d t w = (r, w')"
  obtains
    err w1 where "mkdir_parents (parent t) w = (Inl err, w1)" "r = Inl err" "w' = w1"
  | err w1 where "mkdir_parents (parent t) w = (Inr (), w1)"
      "check_existing e f t w1 = (Inl err, w')" "r = Inl err"
  | w1 where "mkdir_parents (parent t) w = (Inr (), w1)"
      "check_existing e f t w1 = (Inr True, w')" "r = Inr ()"
  | w1 w2 where "mkdir_parents (parent t) w = (Inr (), w1)"
      "check_existing e f t w1 = (Inr False, w2)" "d" "r = Inr ()"
      "w' = print (''Would write font to '' @ path_str t) w2"
  | w1 err where "mkdir_parents (parent t) w = (Inr (), w1)"
      "check_existing e f t w1 = (Inr False, w')" "\<not> d" "tmp_path t = Inl err" "r = Inl err"
  | w1 tmp err where "mkdir_parents (parent t) w = (Inr (), w1)"
      "check_existing e f t w1 = (Inr False, w')" "\<not> d" "tmp_path t = Inr tmp"
      "write_bytes tmp fb w' = Inl err" "r = Inl err"
  | w1 w2 tmp err where "mkdir_parents (parent t) w = (Inr (), w1)"
      "check_existing e f t w1 = (Inr False, w2)" "\<not> d" "tmp_path t = Inr tmp"
      "write_bytes tmp fb w2 = Inr w'" "replace tmp t w' = Inl err" "r = Inl err"
  | w1 w2 w3 w4 tmp where "mkdir_parents (parent t) w = (Inr (), w1)"
      "check_existing e f t w1 = (Inr False, w2)" "\<not> d" "tmp_path t = Inr tmp"
      "write_bytes tmp fb w2 = Inr w3" "replace tmp t w3 = Inr w4" "r = Inr ()"
      "w' = print (''Wrote '' @ path_str t) w4"
proof -
  obtain r1 w1 where mk: "mkdir_parents (parent t) w = (r1, w1)" by force
  obtain rb w2 where ck: "check_existing e f t w1 = (rb, w2)" by force
  show thesis
  proof (cases r1)
    case (Inl err)
    have "r = Inl err \<and> w' = w1" using assms mk Inl by (simp add: ensure_target_def)
    then show thesis using that(1)[of err w1] mk Inl by blast
  next
    case (Inr u)
    then have mk': "mkdir_parents (parent t) w = (Inr (), w1)" using mk by simp
    show thesis
    proof (cases rb)
      case (Inl err)
      then have ck': "check_existing e f t w1 = (Inl err, w2)" using ck by simp
      have "r = Inl err \<and> w' = w2" using assms mk' ck' by (simp add: ensure_target_def)
      then show thesis using that(2)[of w1 err] mk' ck' by blast
    next
      case (Inr b)
      note rb = this
      show thesis
      proof (cases b)
        case True
        then have ck': "check_existing e f t w1 = (Inr True, w2)" using ck rb by simp
        have "r = Inr () \<and> w' = w2" using assms mk' ck' by (simp add: ensure_target_def)
        then show thesis using that(3)[of w1] mk' ck' by blast
      next
        case False
        then have ck': "check_existing e f t w1 = (Inr False, w2)" using ck rb by simp
        show thesis
        proof (cases d)
          case True
          have "r = Inr () \<and> w' = print (''Would write font to '' @ path_str t) w2"
            using assms mk' ck' True by (simp add: ensure_target_def)
          then show thesis using that(4)[of w1 w2] mk' ck' True by blast
        next
          case False
          note d = this
          show thesis
          proof (cases "tmp_path t")
            case (Inl err)
            have "r = Inl err \<and> w' = w2"
              using assms mk' ck' d Inl by (simp add: ensure_target_def)
            then show thesis using that(5)[of w1 err] mk' ck' d Inl by blast
          next
            case (Inr tmp)
            note tmp = this
            show thesis
            proof (cases "write_bytes tmp fb w2")
              case (Inl err)
              have "r = Inl err \<and> w' = w2"
                using assms mk' ck' d tmp Inl by (simp add: ensure_target_def)
              then show thesis using that(6)[of w1 tmp err] mk' ck' d tmp Inl by blast
            next
              case (Inr w3)
              note w3 = this
              show thesis
              proof (cases "replace tmp t w3")
                case (Inl err)
                have "r = Inl err \<and> w' = w3"
                  using assms mk' ck' d tmp w3 Inl by (simp add: ensure_target_def)
                then show thesis using that(7)[of w1 w2 tmp err] mk' ck' d tmp w3 Inl by blast
              next
                case (Inr w4)
                have "r = Inr () \<and> w' = print (''Wrote '' @ path_str t) w4"
                  using assms mk' ck' d tmp w3 Inr by (simp add: ensure_target_def)
                then show thesis
                  using that(8)[of w1 w2 tmp w3 w4] mk' ck' d tmp w3 Inr by blast
              qed
            qed
          qed
        qed
      qed
    qed
  qed
qed

lemma same_on_target:
  "fs w1 t = fs w t \<Longrightarrow> skipped e f w1 t = skipped e f w t"
  "fs w1 t = fs w t \<Longrightarrow> file_bytes w1 t = file_bytes w t"
  "fs w1 t = fs w t \<Longrightarrow> warning_lines f w1 t = warning_lines f w t"
  "fs w1 t = fs w t \<Longrightarrow> valid_copy e w1 t = valid_copy e w t"
  "fs w1 t = fs w t \<Longrightarrow> exists_raises w1 t = exists_raises w t"
  by (simp_all add: skipped_def valid_copy_def file_bytes_def warning_lines_def
      exists_raises_def)

lemma lines_same:
  "fs w1 t = fs w t \<Longrightarrow> status_lines e f d w1 t = status_lines e f d w t"
  by (simp add: status_lines_def skipped_def valid_copy_def file_bytes_def)

text \<open>
  What the check of an existing target amounts to, in terms of the world the iteration
  started in (the creation of the directory does not touch the target).
\<close>

lemma check_after_mkdir:
  assumes mk: "mkdir_parents (parent t) w = (Inr (), w1)"
    and ck: "check_existing e f t w1 = (rb, w2)" and ne: "t \<noteq> []"
  shows "fs w2 = fs w1" "readonly w2 = readonly w" "fs w2 t = fs w t"
    "rb = (if exists_raises w t then Inl (OSError (permission_denied t))
           else Inr (skipped e f w t))"
    "stdout w2 = stdout w @
       (if skipped e f w t then [path_str t @ '': up to date'']
        else if \<not> f \<and> file_bytes w t \<noteq> None
             then [path_str t @ '': checksum mismatch, refreshing''] else [])"
    "stderr w2 = stderr w @ warning_lines f w t"
    "can_mkdir w (parent t)"
proof -
  note t1 = mkdir_parents_target[OF mk ne]
  note s = mkdir_parents_shape[OF mk]
  note c = check_existing_char[OF ck]
  show "fs w2 = fs w1" by (rule c(1))
  show "readonly w2 = readonly w" using c(2) s(3) by simp
  show "fs w2 t = fs w t" using c(1) t1 by simp
  show "rb = (if exists_raises w t then Inl (OSError (permission_denied t))
           else Inr (skipped e f w t))"
    using c(3) same_on_target(1)[OF t1, of e f] same_on_target(5)[OF t1] by simp
  show "stdout w2 = stdout w @
       (if skipped e f w t then [path_str t @ '': up to date'']
        else if \<not> f \<and> file_bytes w t \<noteq> None
             then [path_str t @ '': checksum mismatch, refreshing''] else [])"
    using c(4) s(1) same_on_target(1)[OF t1, of e f] same_on_target(2)[OF t1] by simp
  show "stderr w2 = stderr w @ warning_lines f w t"
    using c(5) s(2) same_on_target(3)[OF t1, of f] by simp
  show "can_mkdir w (parent t)" by (rule mkdir_parents_Inr[OF mk])
qed

lemma ensure_target_success:
  assumes run: "ensure_target e fb f d t w = (Inr u, w')" and ne: "t \<noteq> []"
  shows "stdout w' = stdout w @ status_lines e f d w t"
    and "stderr w' = stderr w @ warning_lines f w t"
    and "readonly w' = readonly w"
    and "fs w' t = (if skipped e f w t \<or> d then fs w t else Some (File fb))"
    and "passable w t"
proof -
  have "stdout w' = stdout w @ status_lines e f d w t
      \<and> stderr w' = stderr w @ warning_lines f w t
      \<and> readonly w' = readonly w
      \<and> fs w' t = (if skipped e f w t \<or> d then fs w t else Some (File fb))
      \<and> passable w t"
    using run
  proof (cases rule: ensure_target_cases)
    case (up_to_date w1)
    note c = check_after_mkdir[OF up_to_date(1,2) ne]
    have sk: "skipped e f w t" "\<not> exists_raises w t" using c(4) by (auto split: if_splits)
    show ?thesis using c(2,3,5,6,7) sk by (simp add: status_lines_def passable_def)
  next
    case (dry w1 w2)
    note c = check_after_mkdir[OF dry(1,2) ne]
    have sk: "\<not> skipped e f w t" "\<not> exists_raises w t" using c(4) by (auto split: if_splits)
    show ?thesis
      using c(2,3,5,6,7) sk dry(3,5) by (simp add: status_lines_def passable_def print_def)
  next
    case (wrote w1 w2 w3 w4 tmp)
    note c = check_after_mkdir[OF wrote(1,2) ne]
    note wr = write_bytes_Inr[OF wrote(5)]
    note rp = replace_Inr[OF wrote(6)]
    have neq: "tmp \<noteq> t" using tmp_path_neq[OF wrote(4)] .
    have sk: "\<not> skipped e f w t" "\<not> exists_raises w t" using c(4) by (auto split: if_splits)
    have w4: "w4 = w2\<lparr>fs := (fs w2)(t \<mapsto> File fb, tmp := None)\<rparr>"
      using wr rp by simp
    show ?thesis
      using c(2,3,5,6,7) sk wrote(3,8) neq
      by (simp add: status_lines_def passable_def print_def w4)
  qed simp_all
  then show "stdout w' = stdout w @ status_lines e f d w t"
    and "stderr w' = stderr w @ warning_lines f w t"
    and "readonly w' = readonly w"
    and "fs w' t = (if skipped e f w t \<or> d then fs w t else Some (File fb))"
    and "passable w t"
    by blast+
qed

text \<open>
  An iteration that raises leaves its target as it was. It prints nothing when the
  directory could not be made or \<open>exists()\<close> raised; otherwise it is a real run that failed
  in the write, after the "checksum mismatch" line if there was one.
\<close>

lemma ensure_target_failure:
  assumes run: "ensure_target e fb f d t w = (Inl err, w')" and ne: "t \<noteq> []"
  shows "fs w' t = fs w t"
    and "readonly w' = readonly w"
    and "stdout w' = stdout w @ (if passable w t then butlast (status_lines e f d w t) else [])"
    and "passable w t \<Longrightarrow> \<not> d \<and> \<not> skipped e f w t"
    and "d \<Longrightarrow> \<exists>msg. err = OSError msg"
    and "stderr w' = stderr w @ (if can_mkdir w (parent t) then warning_lines f w t else [])"
proof -
  have "fs w' t = fs w t \<and> readonly w' = readonly w
      \<and> stdout w' = stdout w @ (if passable w t then butlast (status_lines e f d w t) else [])
      \<and> (passable w t \<longrightarrow> \<not> d \<and> \<not> skipped e f w t)
      \<and> (d \<longrightarrow> (\<exists>msg. err = OSError msg))
      \<and> stderr w' = stderr w @ (if can_mkdir w (parent t) then warning_lines f w t else [])"
    using run
  proof (cases rule: ensure_target_cases)
    case (mkdir_failed err1 w1)
    note s = mkdir_parents_shape[OF mkdir_failed(1)]
    note t1 = mkdir_parents_target[OF mkdir_failed(1) ne]
    note i = mkdir_parents_Inl[OF mkdir_failed(1)]
    show ?thesis using s t1 i mkdir_failed(2,3) by (auto simp: passable_def)
  next
    case (exists_failed err1 w1)
    note c = check_after_mkdir[OF exists_failed(1,2) ne]
    have ex: "exists_raises w t" "err1 = OSError (permission_denied t)"
      using c(4) by (auto split: if_splits)
    have "\<not> skipped e f w t" "file_bytes w t = None"
      using ex(1) by (auto simp: exists_raises_def skipped_def valid_copy_def file_bytes_def)
    then show ?thesis using c(2,3,5,6,7) ex exists_failed(3) by (simp add: passable_def)
  next
    case (no_tmp w1 err1)
    note c = check_after_mkdir[OF no_tmp(1,2) ne]
    have sk: "\<not> skipped e f w t" "\<not> exists_raises w t" using c(4) by (auto split: if_splits)
    show ?thesis using c(2,3,5,6,7) sk no_tmp(3) by (simp add: status_lines_def passable_def)
  next
    case (write_failed w1 tmp err1)
    note c = check_after_mkdir[OF write_failed(1,2) ne]
    have sk: "\<not> skipped e f w t" "\<not> exists_raises w t" using c(4) by (auto split: if_splits)
    show ?thesis
      using c(2,3,5,6,7) sk write_failed(3) by (simp add: status_lines_def passable_def)
  next
    case (replace_failed w1 w2 tmp err1)
    note c = check_after_mkdir[OF replace_failed(1,2) ne]
    note wr = write_bytes_Inr[OF replace_failed(5)]
    have neq: "tmp \<noteq> t" using tmp_path_neq[OF replace_failed(4)] .
    have sk: "\<not> skipped e f w t" "\<not> exists_raises w t" using c(4) by (auto split: if_splits)
    show ?thesis
      using c(2,3,5,6,7) sk replace_failed(3) wr neq
      by (simp add: status_lines_def passable_def)
  qed simp_all
  then show "fs w' t = fs w t"
    and "readonly w' = readonly w"
    and "stdout w' = stdout w @ (if passable w t then butlast (status_lines e f d w t) else [])"
    and "passable w t \<Longrightarrow> \<not> d \<and> \<not> skipped e f w t"
    and "d \<Longrightarrow> \<exists>msg. err = OSError msg"
    and "stderr w' = stderr w @ (if can_mkdir w (parent t) then warning_lines f w t else [])"
    by blast+
qed

lemma ensure_target_dry_runs:
  assumes "passable w t"
  shows "\<exists>w'. ensure_target e fb f True t w = (Inr (), w')"
proof -
  obtain r w' where run: "ensure_target e fb f True t w = (r, w')" by force
  have "r = Inr ()"
    using run
  proof (cases rule: ensure_target_cases)
    case (mkdir_failed err w1)
    then show ?thesis using mkdir_parents_Inl[OF mkdir_failed(1)] assms
      by (simp add: passable_def)
  next
    case (exists_failed err w1)
    note s = mkdir_parents_frame[OF exists_failed(1), of t]
    have "exists_raises w1 t"
      using check_existing_char(3)[OF exists_failed(2)] by (auto split: if_splits)
    then have "exists_raises w t" using s by (auto simp: exists_raises_def)
    then show ?thesis using assms by (simp add: passable_def)
  qed simp_all
  with run show ?thesis by blast
qed

lemma ensure_target_frame:
  assumes run: "ensure_target e fb f d t w = (r, w')"
    and p: "d \<or> (p \<noteq> t \<and> tmp_path t \<noteq> Inr p)"
  shows "fs w' p = fs w p
         \<or> (fs w p = None \<and> p \<notin> readonly w \<and> fs w' p = Some Dir \<and> prefix p (parent t))"
  using run
proof (cases rule: ensure_target_cases)
  case (mkdir_failed err w1)
  then show ?thesis using mkdir_parents_frame[OF mkdir_failed(1), of p] by simp
next
  case (exists_failed err w1)
  then show ?thesis
    using mkdir_parents_frame[OF exists_failed(1), of p]
      check_existing_char(1)[OF exists_failed(2)]
    by simp
next
  case (up_to_date w1)
  then show ?thesis
    using mkdir_parents_frame[OF up_to_date(1), of p] check_existing_char(1)[OF up_to_date(2)]
    by simp
next
  case (dry w1 w2)
  then show ?thesis
    using mkdir_parents_frame[OF dry(1), of p] check_existing_char(1)[OF dry(2)]
    by (simp add: print_def)
next
  case (no_tmp w1 err)
  then show ?thesis
    using mkdir_parents_frame[OF no_tmp(1), of p] check_existing_char(1)[OF no_tmp(2)]
    by simp
next
  case (write_failed w1 tmp err)
  then show ?thesis
    using mkdir_parents_frame[OF write_failed(1), of p]
      check_existing_char(1)[OF write_failed(2)]
    by simp
next
  case (replace_failed w1 w2 tmp err)
  then have "p \<noteq> tmp" using p by auto
  then show ?thesis
    using mkdir_parents_frame[OF replace_failed(1), of p]
      check_existing_char(1)[OF replace_failed(2)] write_bytes_Inr[OF replace_failed(5)]
    by simp
next
  case (wrote w1 w2 w3 w4 tmp)
  then have "p \<noteq> tmp" "p \<noteq> t" using p by auto
  then show ?thesis
    using mkdir_parents_frame[OF wrote(1), of p] check_existing_char(1)[OF wrote(2)]
      write_bytes_Inr[OF wrote(5)] replace_Inr[OF wrote(6)] wrote(8)
    by (simp add: print_def)
qed

lemma ensure_target_readonly:
  assumes run: "ensure_target e fb f d t w = (r, w')" and ne: "t \<noteq> []"
  shows "readonly w' = readonly w"
proof (cases r)
  case (Inl err)
  then show ?thesis using ensure_target_failure(2)[OF _ ne] run by blast
next
  case (Inr u)
  then show ?thesis using ensure_target_success(3)[OF _ ne] run by blast
qed

lemma ensure_target_keeps_dir:
  assumes run: "ensure_target e fb f d t w = (r, w')" and dir: "fs w p = Some Dir"
  shows "fs w' p = Some Dir"
  using run
proof (cases rule: ensure_target_cases)
  case (mkdir_failed err w1)
  then show ?thesis using mkdir_parents_keeps_dir[OF mkdir_failed(1) dir] by simp
next
  case (exists_failed err w1)
  then show ?thesis
    using mkdir_parents_keeps_dir[OF exists_failed(1) dir]
      check_existing_char(1)[OF exists_failed(2)]
    by simp
next
  case (up_to_date w1)
  then show ?thesis
    using mkdir_parents_keeps_dir[OF up_to_date(1) dir] check_existing_char(1)[OF up_to_date(2)]
    by simp
next
  case (dry w1 w2)
  then show ?thesis
    using mkdir_parents_keeps_dir[OF dry(1) dir] check_existing_char(1)[OF dry(2)]
    by (simp add: print_def)
next
  case (no_tmp w1 err)
  then show ?thesis
    using mkdir_parents_keeps_dir[OF no_tmp(1) dir] check_existing_char(1)[OF no_tmp(2)]
    by simp
next
  case (write_failed w1 tmp err)
  then show ?thesis
    using mkdir_parents_keeps_dir[OF write_failed(1) dir]
      check_existing_char(1)[OF write_failed(2)]
    by simp
next
  case (replace_failed w1 w2 tmp err)
  note m = mkdir_parents_keeps_dir[OF replace_failed(1) dir]
  note c = check_existing_char(1)[OF replace_failed(2)]
  note wr = write_bytes_Inr[OF replace_failed(5)]
  have "p \<noteq> tmp" using wr m c plain_not_dir by auto
  then show ?thesis using m c wr by simp
next
  case (wrote w1 w2 w3 w4 tmp)
  note m = mkdir_parents_keeps_dir[OF wrote(1) dir]
  note c = check_existing_char(1)[OF wrote(2)]
  note wr = write_bytes_Inr[OF wrote(5)]
  note rp = replace_Inr[OF wrote(6)]
  have a: "p \<noteq> tmp" using wr m c plain_not_dir by auto
  have "fs w3 p = Some Dir" using a m c wr by simp
  then have b: "p \<noteq> t" using rp plain_not_dir by auto
  show ?thesis using a b m c wr rp wrote(8) by (simp add: print_def)
qed

lemma ensure_target_made_dirs:
  assumes run: "ensure_target e fb f d t w = (r, w')" and q: "prefix q (parent t)"
    and mk: "can_mkdir w (parent t)"
  shows "fs w' q = Some Dir"
proof -
  obtain r1 w1 where mk1: "mkdir_parents (parent t) w = (r1, w1)" by force
  have r1: "r1 = Inr ()" using mk mkdir_parents_ok_iff[of "parent t" w] mk1 by simp
  have d1: "fs w1 q = Some Dir" using mkdir_parents_made[OF _ q] mk1 r1 by blast
  have noop: "mkdir_parents (parent t) w1 = (Inr (), w1)"
    using mkdirs_noop[of "prefixes (parent t)" w1 "parent t"]
      mkdirs_made[of "parent t" "prefixes (parent t)" w "()" w1] mk1 r1
    by (auto simp: mkdir_parents_def)
  have "ensure_target e fb f d t w1 = ensure_target e fb f d t w"
    using mk1 r1 noop by (simp add: ensure_target_def)
  with run have "ensure_target e fb f d t w1 = (r, w')" by simp
  from ensure_target_keeps_dir[OF this d1] show ?thesis .
qed

subsection \<open>The loop of \<open>ensure_targets\<close>\<close>

lemma layout_Cons:
  "layout (t # ts) \<Longrightarrow> layout ts"
  "layout (t # ts) \<Longrightarrow> t \<noteq> [] \<and> t \<notin> set ts"
  "layout (t # ts) \<Longrightarrow> t' \<in> set ts \<Longrightarrow>
     t' \<noteq> t \<and> \<not> prefix t (parent t') \<and> \<not> prefix t' (parent t)
     \<and> tmp_path t \<noteq> Inr t' \<and> tmp_path t' \<noteq> Inr t"
  unfolding layout_def by (simp, simp, fastforce)

lemma layout2D:
  assumes "layout2 ts" "t \<in> set ts" "t' \<in> set ts" "tmp_path t = Inr tmp"
  shows "\<not> prefix tmp (parent t')"
proof -
  from assms(1-3)
  have "case tmp_path t of Inr tmp \<Rightarrow> \<not> prefix tmp (parent t') | Inl _ \<Rightarrow> True"
    unfolding layout2_def by blast
  with assms(4) show ?thesis by simp
qed

lemma layout2_Cons: "layout2 (t # ts) \<Longrightarrow> layout2 ts"
  unfolding layout2_def using layout_Cons(1)[of t ts] by simp

lemma layout2_layout: "layout2 ts \<Longrightarrow> layout ts"
  by (simp add: layout2_def)

lemma loop_frame:
  assumes "ensure_targets_loop e fb f d ts w = (r, w')"
    and "d \<or> (p \<notin> set ts \<and> (\<forall>t\<in>set ts. tmp_path t \<noteq> Inr p))"
  shows "fs w' p = fs w p
         \<or> (fs w p = None \<and> fs w' p = Some Dir \<and> (\<exists>t\<in>set ts. prefix p (parent t)))"
  using assms
proof (induction ts arbitrary: w)
  case Nil
  then show ?case by simp
next
  case (Cons t ts)
  obtain r1 w1 where it: "ensure_target e fb f d t w = (r1, w1)" by force
  have p1: "d \<or> (p \<noteq> t \<and> tmp_path t \<noteq> Inr p)" using Cons.prems(2) by auto
  note f1 = ensure_target_frame[OF it p1]
  show ?case
  proof (cases r1)
    case (Inl err)
    with Cons.prems(1) it have "w' = w1" by simp
    with f1 show ?thesis by auto
  next
    case (Inr u)
    with Cons.prems(1) it have rest: "ensure_targets_loop e fb f d ts w1 = (r, w')" by simp
    have p2: "d \<or> (p \<notin> set ts \<and> (\<forall>t\<in>set ts. tmp_path t \<noteq> Inr p))"
      using Cons.prems(2) by auto
    from Cons.IH[OF rest p2] f1 show ?thesis by auto
  qed
qed

lemma loop_keeps_dir:
  "ensure_targets_loop e fb f d ts w = (r, w') \<Longrightarrow> fs w p = Some Dir \<Longrightarrow> fs w' p = Some Dir"
proof (induction ts arbitrary: w)
  case Nil
  then show ?case by simp
next
  case (Cons t ts)
  obtain r1 w1 where it: "ensure_target e fb f d t w = (r1, w1)" by force
  note k = ensure_target_keeps_dir[OF it Cons.prems(2)]
  show ?case
  proof (cases r1)
    case (Inl err)
    with Cons.prems(1) it k show ?thesis by simp
  next
    case (Inr u)
    with Cons.prems(1) it have "ensure_targets_loop e fb f d ts w1 = (r, w')" by simp
    from Cons.IH[OF this k] show ?thesis .
  qed
qed

text \<open>
  An iteration leaves what the later iterations depend on as it found it: the later
  targets themselves, and whether their directories can be made.
\<close>

lemma can_mkdir_cong:
  assumes "readonly w1 = readonly w"
    and "\<And>q. prefix q p \<Longrightarrow>
           fs w1 q = fs w q \<or> (fs w q = None \<and> q \<notin> readonly w \<and> fs w1 q = Some Dir)"
  shows "can_mkdir w1 p = can_mkdir w p"
proof -
  have "(fs w1 q = Some Dir \<or> (fs w1 q = None \<and> q \<notin> readonly w1))
      = (fs w q = Some Dir \<or> (fs w q = None \<and> q \<notin> readonly w))" if "prefix q p" for q
    using assms(2)[OF that] assms(1) by auto
  then show ?thesis by (auto simp: can_mkdir_def in_set_prefixes)
qed

lemma later_same:
  assumes it: "ensure_target e fb f d t w = (r, w1)" and ne: "t \<noteq> []"
    and t': "t' \<noteq> t" "\<not> prefix t (parent t')" "\<not> prefix t' (parent t)"
    and tmp: "d \<or> (tmp_path t \<noteq> Inr t'
                \<and> (case tmp_path t of Inr tmp \<Rightarrow> \<not> prefix tmp (parent t') | Inl _ \<Rightarrow> True))"
  shows "fs w1 t' = fs w t'" and "passable w1 t' = passable w t'"
    and "can_mkdir w1 (parent t') = can_mkdir w (parent t')"
proof -
  show same: "fs w1 t' = fs w t'"
    using ensure_target_frame[OF it, of t'] t' tmp by blast
  have ro: "readonly w1 = readonly w" using ensure_target_readonly[OF it ne] .
  have "fs w1 q = fs w q \<or> (fs w q = None \<and> q \<notin> readonly w \<and> fs w1 q = Some Dir)"
    if q: "prefix q (parent t')" for q
  proof -
    have "q \<noteq> t" using q t'(2) by auto
    moreover have "d \<or> tmp_path t \<noteq> Inr q" using q tmp by (auto split: sum.splits)
    ultimately show ?thesis using ensure_target_frame[OF it, of q] by blast
  qed
  from can_mkdir_cong[OF ro this] show cm: "can_mkdir w1 (parent t') = can_mkdir w (parent t')"
    by blast
  then show "passable w1 t' = passable w t'"
    using same_on_target(5)[OF same] by (simp add: passable_def)
qed

lemma loop_success:
  assumes "ensure_targets_loop e fb f d ts w = (Inr u, w')" and "layout ts"
  shows "stdout w' = stdout w @ concat (map (status_lines e f d w) ts)
       \<and> stderr w' = stderr w @ concat (map (warning_lines f w) ts)
       \<and> readonly w' = readonly w
       \<and> (\<forall>t\<in>set ts. fs w' t = (if skipped e f w t \<or> d then fs w t else Some (File fb)))
       \<and> (\<forall>t\<in>set ts. \<forall>q. prefix q (parent t) \<longrightarrow> fs w' q = Some Dir)"
  using assms
proof (induction ts arbitrary: w)
  case Nil
  then show ?case by simp
next
  case (Cons t ts)
  obtain r1 w1 where it0: "ensure_target e fb f d t w = (r1, w1)" by force
  with Cons.prems(1) have r1: "r1 = Inr ()" by (cases r1) auto
  have it: "ensure_target e fb f d t w = (Inr (), w1)" using it0 r1 by simp
  have rest: "ensure_targets_loop e fb f d ts w1 = (Inr u, w')"
    using Cons.prems(1) it by simp
  note lay = layout_Cons[OF Cons.prems(2)]
  have ne: "t \<noteq> []" using lay(2) by blast
  note s = ensure_target_success[OF it ne]
  note ih = Cons.IH[OF rest lay(1)]
  have same: "fs w1 t' = fs w t'" if "t' \<in> set ts" for t'
  proof -
    from lay(3)[OF that] have "t' \<noteq> t" "tmp_path t \<noteq> Inr t'" "\<not> prefix t' (parent t)"
      by blast+
    with ensure_target_frame[OF it, of t'] show ?thesis by blast
  qed
  have m1: "map (status_lines e f d w1) ts = map (status_lines e f d w) ts"
    by (rule map_cong[OF refl]) (rule lines_same, rule same)
  have m2: "map (warning_lines f w1) ts = map (warning_lines f w) ts"
    by (rule map_cong[OF refl]) (rule same_on_target(3), rule same)
  have tfin: "fs w' t = fs w1 t"
  proof -
    have "t \<notin> set ts" using lay(2) by blast
    moreover have "\<forall>t'\<in>set ts. tmp_path t' \<noteq> Inr t" using lay(3) by blast
    moreover have "\<not> (\<exists>t'\<in>set ts. prefix t (parent t'))" using lay(3) by blast
    ultimately show ?thesis using loop_frame[OF rest, of t] by blast
  qed
  have mk: "can_mkdir w (parent t)" using s(5) by (simp add: passable_def)
  have dirs: "fs w' q = Some Dir" if "prefix q (parent t)" for q
    using loop_keeps_dir[OF rest ensure_target_made_dirs[OF it that mk]] .
  have tgt: "fs w' t' = (if skipped e f w t' \<or> d then fs w t' else Some (File fb))"
    if "t' \<in> set ts" for t'
  proof -
    from ih that have "fs w' t' = (if skipped e f w1 t' \<or> d then fs w1 t' else Some (File fb))"
      by blast
    then show ?thesis
      using same[OF that] same_on_target(1)[OF same[OF that], of e f] by simp
  qed
  have a: "stdout w' = stdout w @ concat (map (status_lines e f d w) (t # ts))"
    using ih s(1) by (simp add: m1)
  have b: "stderr w' = stderr w @ concat (map (warning_lines f w) (t # ts))"
    using ih s(2) by (simp add: m2)
  have c: "readonly w' = readonly w"
    using ih s(3) by simp
  have d1: "\<forall>t'\<in>set (t # ts).
      fs w' t' = (if skipped e f w t' \<or> d then fs w t' else Some (File fb))"
    using tgt tfin s(4) by simp
  have d2: "\<forall>t'\<in>set (t # ts). \<forall>q. prefix q (parent t') \<longrightarrow> fs w' q = Some Dir"
    using dirs ih by simp
  from a b c d1 d2 show ?case by blast
qed

text \<open>
  What the later iterations depend on is the same after an iteration as before, for a
  dry run under \<open>layout\<close> and for any run under \<open>layout2\<close>.
\<close>

lemma later_targets:
  assumes it: "ensure_target e fb f d t w = (r, w1)"
    and lay: "layout (t # ts)" and d: "d \<or> layout2 (t # ts)" and t': "t' \<in> set ts"
  shows "fs w1 t' = fs w t'" and "passable w1 t' = passable w t'"
    and "status_lines e f d' w1 t' = status_lines e f d' w t'"
    and "can_mkdir w1 (parent t') = can_mkdir w (parent t')"
proof -
  have ne: "t \<noteq> []" using layout_Cons(2)[OF lay] by blast
  from layout_Cons(3)[OF lay t']
  have n: "t' \<noteq> t" "\<not> prefix t (parent t')" "\<not> prefix t' (parent t)" "tmp_path t \<noteq> Inr t'"
    by blast+
  have tmp: "d \<or> (tmp_path t \<noteq> Inr t'
                \<and> (case tmp_path t of Inr tmp \<Rightarrow> \<not> prefix tmp (parent t') | Inl _ \<Rightarrow> True))"
  proof (cases d)
    case True
    then show ?thesis by simp
  next
    case False
    with d have l2: "layout2 (t # ts)" by simp
    have "\<not> prefix tmp (parent t')" if "tmp_path t = Inr tmp" for tmp
      using layout2D[OF l2 _ _ that, of t'] t' by simp
    then show ?thesis using n(4) by (auto split: sum.splits)
  qed
  show same: "fs w1 t' = fs w t'" using later_same(1)[OF it ne n(1-3) tmp] .
  show "passable w1 t' = passable w t'" using later_same(2)[OF it ne n(1-3) tmp] .
  show "status_lines e f d' w1 t' = status_lines e f d' w t'" using lines_same[OF same] .
  show "can_mkdir w1 (parent t') = can_mkdir w (parent t')"
    using later_same(3)[OF it ne n(1-3) tmp] .
qed

lemma path_str_slash: "\<exists>s. path_str t = CHR ''/'' # s"
  by (cases t) (simp_all add: path_str_def)

lemma intended_simps:
  "intended (''Wrote '' @ x) = ''Would write font to '' @ x"
  "intended (path_str t @ x) = path_str t @ x"
proof -
  show "intended (''Wrote '' @ x) = ''Would write font to '' @ x" by (simp add: intended_def)
  obtain s where "path_str t = CHR ''/'' # s" using path_str_slash by blast
  then show "intended (path_str t @ x) = path_str t @ x" by (simp add: intended_def)
qed

lemma intended_status:
  "map intended (status_lines e f False w t) = status_lines e f True w t"
proof -
  obtain s where ps: "path_str t = CHR ''/'' # s" using path_str_slash by blast
  show ?thesis by (simp add: status_lines_def intended_def ps)
qed

lemma intended_butlast:
  assumes "\<not> skipped e f w t"
  shows "prefix (map intended (butlast (status_lines e f False w t))) (status_lines e f True w t)"
proof -
  obtain s where ps: "path_str t = CHR ''/'' # s" using path_str_slash by blast
  show ?thesis using assms by (simp add: status_lines_def intended_def ps)
qed

text \<open>A dry run of the loop, however it ends.\<close>

lemma dry_loop_out:
  assumes "ensure_targets_loop e fb f True ts w = (r, w')" and "layout ts"
  shows "stdout w' = stdout w @ concat (map (status_lines e f True w) (takeWhile (passable w) ts))
       \<and> (r = Inr ()) = (\<forall>t\<in>set ts. passable w t)
       \<and> (\<forall>err. r = Inl err \<longrightarrow> (\<exists>msg. err = OSError msg))
       \<and> (\<forall>t\<in>set (reached w ts). can_mkdir w (parent t) \<longrightarrow>
             (\<forall>q. prefix q (parent t) \<longrightarrow> fs w' q = Some Dir))"
  using assms
proof (induction ts arbitrary: w)
  case Nil
  then show ?case by (auto simp: reached_def)
next
  case (Cons t ts)
  note lay = layout_Cons[OF Cons.prems(2)]
  have ne: "t \<noteq> []" using lay(2) by blast
  obtain r1 w1 where it0: "ensure_target e fb f True t w = (r1, w1)" by force
  show ?case
  proof (cases "passable w t")
    case False
    have "r1 \<noteq> Inr ()" using ensure_target_success(5)[OF _ ne] it0 False by blast
    then obtain err where r1: "r1 = Inl err" by (cases r1) auto
    have it: "ensure_target e fb f True t w = (Inl err, w1)" using it0 r1 by simp
    have fin: "r = Inl err" "w' = w1" using Cons.prems(1) it by simp_all
    note f = ensure_target_failure[OF it ne]
    have "fs w' q = Some Dir" if "can_mkdir w (parent t)" "prefix q (parent t)" for q
      using ensure_target_made_dirs[OF it that(2,1)] fin by simp
    then show ?thesis using f(3,5) fin False by (simp add: reached_def)
  next
    case True
    have r1: "r1 = Inr ()" using ensure_target_dry_runs[OF True, of e fb f] it0 by simp
    have it: "ensure_target e fb f True t w = (Inr (), w1)" using it0 r1 by simp
    have rest: "ensure_targets_loop e fb f True ts w1 = (r, w')"
      using Cons.prems(1) it by simp
    note s = ensure_target_success[OF it ne]
    note ih = Cons.IH[OF rest lay(1)]
    have dl: "True \<or> layout2 (t # ts)" by simp
    note later = later_targets[OF it Cons.prems(2) dl]
    have tw: "takeWhile (passable w1) ts = takeWhile (passable w) ts"
      by (rule takeWhile_cong[OF refl]) (rule later(2))
    have m1: "map (status_lines e f True w1) (takeWhile (passable w) ts)
        = map (status_lines e f True w) (takeWhile (passable w) ts)"
    proof (rule map_cong[OF refl])
      fix x assume "x \<in> set (takeWhile (passable w) ts)"
      then have "x \<in> set ts" by (rule set_takeWhileD[THEN conjunct1])
      then show "status_lines e f True w1 x = status_lines e f True w x" by (rule later(3))
    qed
    have all: "(\<forall>t'\<in>set ts. passable w1 t') = (\<forall>t'\<in>set ts. passable w t')"
      using later(2) by simp
    have mk: "can_mkdir w (parent t)" using True by (simp add: passable_def)
    have dirs: "fs w' q = Some Dir" if "prefix q (parent t)" for q
      using loop_keeps_dir[OF rest ensure_target_made_dirs[OF it that mk]] .
    have a: "stdout w' = stdout w
        @ concat (map (status_lines e f True w) (takeWhile (passable w) (t # ts)))"
      using ih s(1) True by (simp add: tw m1)
    have b: "(r = Inr ()) = (\<forall>t'\<in>set (t # ts). passable w t')"
      using ih all True by simp
    have c: "\<forall>err. r = Inl err \<longrightarrow> (\<exists>msg. err = OSError msg)" using ih by blast
    have rc: "reached w1 ts = reached w ts"
      unfolding reached_def tw
      using dropWhile_cong[OF refl, of ts "passable w1" "passable w"] later(2) by simp
    have cm: "can_mkdir w1 (parent t') = can_mkdir w (parent t')" if "t' \<in> set ts" for t'
      using later(4)[OF that] .
    have rs: "set (reached w ts) \<subseteq> set ts"
      using set_takeWhileD[of _ "passable w" ts] set_dropWhileD[of _ "passable w" ts]
        in_set_takeD[of _ 1 "dropWhile (passable w) ts"]
      by (auto simp: reached_def)
    have d: "\<forall>t'\<in>set (reached w (t # ts)). can_mkdir w (parent t') \<longrightarrow>
        (\<forall>q. prefix q (parent t') \<longrightarrow> fs w' q = Some Dir)"
    proof
      fix t' assume t': "t' \<in> set (reached w (t # ts))"
      then have "t' = t \<or> t' \<in> set (reached w ts)" using True by (simp add: reached_def)
      then show "can_mkdir w (parent t') \<longrightarrow> (\<forall>q. prefix q (parent t') \<longrightarrow> fs w' q = Some Dir)"
      proof
        assume "t' = t"
        then show ?thesis using dirs by simp
      next
        assume r: "t' \<in> set (reached w ts)"
        then have "t' \<in> set ts" using rs by blast
        then show ?thesis using ih r rc cm by simp
      qed
    qed
    from a b c d show ?thesis by blast
  qed
qed

text \<open>
  A real run of the loop, however it ends: what it prints, with every "Wrote" read as
  "Would write font to", is the beginning of what the dry run from the same world prints;
  and a target it changed is one it reports as written.
\<close>

lemma real_loop_out:
  assumes "ensure_targets_loop e fb f False ts w = (r, w')" and "layout2 ts"
  shows "\<exists>out. stdout w' = stdout w @ out
       \<and> prefix (map intended out)
            (concat (map (status_lines e f True w) (takeWhile (passable w) ts)))
       \<and> (\<forall>t\<in>set ts. fs w' t \<noteq> fs w t \<longrightarrow> ''Wrote '' @ path_str t \<in> set out)"
  using assms
proof (induction ts arbitrary: w)
  case Nil
  then show ?case by simp
next
  case (Cons t ts)
  have l1: "layout (t # ts)" using layout2_layout[OF Cons.prems(2)] .
  note lay = layout_Cons[OF l1]
  have ne: "t \<noteq> []" using lay(2) by blast
  obtain r1 w1 where it: "ensure_target e fb f False t w = (r1, w1)" by force
  have l2: "False \<or> layout2 (t # ts)" using Cons.prems(2) by simp
  note later = later_targets[OF it l1 l2]
  show ?case
  proof (cases r1)
    case (Inl err)
    have it': "ensure_target e fb f False t w = (Inl err, w1)" using it Inl by simp
    have fin: "w' = w1" using Cons.prems(1) it' by simp
    note f = ensure_target_failure[OF it' ne]
    have unchanged: "\<forall>t'\<in>set (t # ts). fs w' t' = fs w t'"
      using f(1) later(1) fin by simp
    show ?thesis
    proof (cases "passable w t")
      case False
      then have "stdout w' = stdout w @ []" using f(3) fin by simp
      then show ?thesis using unchanged by fastforce
    next
      case True
      have out: "stdout w' = stdout w @ butlast (status_lines e f False w t)"
        using f(3) fin True by simp
      have "prefix (map intended (butlast (status_lines e f False w t)))
          (status_lines e f True w t)"
        using intended_butlast f(4)[OF True] by blast
      then have "prefix (map intended (butlast (status_lines e f False w t)))
          (concat (map (status_lines e f True w) (takeWhile (passable w) (t # ts))))"
        using True by (simp add: prefix_prefix)
      with out unchanged show ?thesis by blast
    qed
  next
    case (Inr u)
    have it': "ensure_target e fb f False t w = (Inr (), w1)" using it Inr by simp
    have rest: "ensure_targets_loop e fb f False ts w1 = (r, w')"
      using Cons.prems(1) it' by simp
    note s = ensure_target_success[OF it' ne]
    obtain out2 where o2: "stdout w' = stdout w1 @ out2"
      and p2: "prefix (map intended out2)
            (concat (map (status_lines e f True w1) (takeWhile (passable w1) ts)))"
      and c2: "\<forall>t'\<in>set ts. fs w' t' \<noteq> fs w1 t' \<longrightarrow> ''Wrote '' @ path_str t' \<in> set out2"
      using Cons.IH[OF rest layout2_Cons[OF Cons.prems(2)]] by blast
    have tw: "takeWhile (passable w1) ts = takeWhile (passable w) ts"
      by (rule takeWhile_cong[OF refl]) (rule later(2))
    have m1: "map (status_lines e f True w1) (takeWhile (passable w) ts)
        = map (status_lines e f True w) (takeWhile (passable w) ts)"
    proof (rule map_cong[OF refl])
      fix x assume "x \<in> set (takeWhile (passable w) ts)"
      then have "x \<in> set ts" by (rule set_takeWhileD[THEN conjunct1])
      then show "status_lines e f True w1 x = status_lines e f True w x" by (rule later(3))
    qed
    have a: "stdout w' = stdout w @ (status_lines e f False w t @ out2)"
      using o2 s(1) by simp
    have b: "prefix (map intended (status_lines e f False w t @ out2))
        (concat (map (status_lines e f True w) (takeWhile (passable w) (t # ts))))"
      using p2 s(5) by (simp add: tw m1 intended_status)
    have tfin: "fs w' t = fs w1 t"
    proof -
      have "t \<notin> set ts" using lay(2) by blast
      moreover have "\<forall>t'\<in>set ts. tmp_path t' \<noteq> Inr t" using lay(3) by blast
      moreover have "\<not> (\<exists>t'\<in>set ts. prefix t (parent t'))" using lay(3) by blast
      ultimately show ?thesis using loop_frame[OF rest, of t] by blast
    qed
    have ct: "''Wrote '' @ path_str t \<in> set (status_lines e f False w t @ out2)"
      if "fs w' t \<noteq> fs w t"
    proof -
      have "\<not> skipped e f w t" using that tfin s(4) by auto
      then show ?thesis by (simp add: status_lines_def)
    qed
    have cr: "''Wrote '' @ path_str t' \<in> set (status_lines e f False w t @ out2)"
      if "t' \<in> set ts" "fs w' t' \<noteq> fs w t'" for t'
      using c2 that later(1)[OF that(1)] by simp
    have c: "\<forall>t'\<in>set (t # ts). fs w' t' \<noteq> fs w t' \<longrightarrow>
        ''Wrote '' @ path_str t' \<in> set (status_lines e f False w t @ out2)"
      using ct cr by auto
    from a b c show ?thesis by blast
  qed
qed

lemma tmp_path_last: "tmp_path t = Inr tmp \<Longrightarrow> last tmp = last t @ ''.tmp''"
  by (auto dest: tmp_path_eq)

lemma tmp_path_not_same_name: "last t' = last t \<Longrightarrow> tmp_path t \<noteq> Inr t'"
  by (auto dest: tmp_path_last)

lemma FONT_TARGETS_names: "t \<in> set (FONT_TARGETS e) \<Longrightarrow> last t = FONT_FILENAME \<and> t \<noteq> []"
  by (auto simp: FONT_TARGETS_def)

lemma FONT_TARGETS_distinct: "distinct (FONT_TARGETS e)"
  by (simp add: FONT_TARGETS_def)

lemma FONT_TARGETS_not_ancestor:
  "t \<in> set (FONT_TARGETS e) \<Longrightarrow> t' \<in> set (FONT_TARGETS e) \<Longrightarrow> \<not> prefix t (parent t')"
  by (auto simp: FONT_TARGETS_def parent_def butlast_append FONT_FILENAME_def)

lemma layout_FONT_TARGETS: "layout (FONT_TARGETS e)"
  unfolding layout_def
  using FONT_TARGETS_distinct FONT_TARGETS_names FONT_TARGETS_not_ancestor
    tmp_path_not_same_name
  by metis

lemma layout2_FONT_TARGETS: "layout2 (FONT_TARGETS e)"
proof -
  have "\<not> prefix tmp (parent t')"
    if "t \<in> set (FONT_TARGETS e)" "t' \<in> set (FONT_TARGETS e)" "tmp_path t = Inr tmp"
    for t t' tmp
  proof -
    have "tmp = butlast t @ [last t @ ''.tmp'']" using tmp_path_eq[OF that(3)] by simp
    then show ?thesis using that(1,2)
      by (auto simp: FONT_TARGETS_def parent_def butlast_append FONT_FILENAME_def)
  qed
  then have "\<forall>t\<in>set (FONT_TARGETS e). \<forall>t'\<in>set (FONT_TARGETS e).
         case tmp_path t of Inr tmp \<Rightarrow> \<not> prefix tmp (parent t') | Inl _ \<Rightarrow> True"
    by (auto split: sum.splits)
  then show ?thesis unfolding layout2_def using layout_FONT_TARGETS by blast
qed

subsection \<open>The integrity gate\<close>

lemma probe_frame:
  assumes "existing_font_bytes e w = (r, w1)"
  shows "fs w1 = fs w" "stdout w1 = stdout w" "readonly w1 = readonly w"
  using assms unfolding existing_font_bytes_def probe_loop_char by auto

lemma probe_Some_valid:
  assumes "existing_font_bytes e w = (Inr (Some data), w1)"
  shows "sha256_digest e data = FONT_SHA256"
proof -
  from assms have pr: "probe_result e w (FONT_TARGETS e) = Inr (Some data)"
    unfolding existing_font_bytes_def probe_loop_char by simp
  then obtain t where t: "find (stops_probe e w) (FONT_TARGETS e) = Some t"
    and d: "\<not> exists_raises w t" "file_bytes w t = Some data"
    by (auto simp: probe_result_def split: option.splits if_splits)
  from t have "stops_probe e w t" by (auto simp: find_Some_iff)
  with d have "valid_copy e w t" by (simp add: stops_probe_def)
  with d show ?thesis
    by (auto simp: valid_copy_def file_bytes_def split: option.splits node.splits)
qed

lemma download_font_Inr: "download_font e = Inr fb \<Longrightarrow>
    urlopen_read e = Inr fb \<and> sha256_digest e fb = FONT_SHA256"
  by (auto simp: download_font_def Let_def split: sum.splits if_splits)

text \<open>
  C1. When the bytes the server answers with do not have the pinned digest,
  \<open>download_font\<close> raises a \<open>RuntimeError\<close> whose message holds the expected and the
  actual digest. Whenever \<open>main\<close> gets as far as fetching (the probe was bypassed by
  \<open>--force\<close> or found no valid copy), it ends with that error in the world the probe left:
  \<open>ensure_targets\<close> has not run, the file system and stdout are as they were.
\<close>

theorem integrity_gate:
  assumes "urlopen_read e = Inr payload" and "sha256_digest e payload \<noteq> FONT_SHA256"
  shows "download_font e =
           Inl (RuntimeError (''Downloaded font does not match expected SHA-256. ''
                  @ ''Expected '' @ FONT_SHA256 @ '', got '' @ sha256_digest e payload @ ''.''))
       \<and> (force a \<or> fst (existing_font_bytes e w) = Inr None \<longrightarrow>
            main e a w =
              (Inl (RuntimeError (''Downloaded font does not match expected SHA-256. ''
                  @ ''Expected '' @ FONT_SHA256 @ '', got '' @ sha256_digest e payload @ ''.'')),
               if force a then w else snd (existing_font_bytes e w))
            \<and> fs (snd (main e a w)) = fs w
            \<and> stdout (snd (main e a w)) = stdout w
            \<and> readonly (snd (main e a w)) = readonly w)"
proof -
  have dl: "download_font e =
           Inl (RuntimeError (''Downloaded font does not match expected SHA-256. ''
                  @ ''Expected '' @ FONT_SHA256 @ '', got '' @ sha256_digest e payload @ ''.''))"
    using assms by (simp add: download_font_def Let_def)
  have m: "main e a w =
              (Inl (RuntimeError (''Downloaded font does not match expected SHA-256. ''
                  @ ''Expected '' @ FONT_SHA256 @ '', got '' @ sha256_digest e payload @ ''.'')),
               if force a then w else snd (existing_font_bytes e w))"
    if "force a \<or> fst (existing_font_bytes e w) = Inr None"
  proof (cases "force a")
    case True
    then show ?thesis by (simp add: main_def dl)
  next
    case False
    with that obtain w1 where "existing_font_bytes e w = (Inr None, w1)"
      by (cases "existing_font_bytes e w") auto
    with False show ?thesis by (simp add: main_def dl)
  qed
  have fr: "fs (if force a then w else snd (existing_font_bytes e w)) = fs w
      \<and> stdout (if force a then w else snd (existing_font_bytes e w)) = stdout w
      \<and> readonly (if force a then w else snd (existing_font_bytes e w)) = readonly w"
    using probe_frame[of e w "fst (existing_font_bytes e w)" "snd (existing_font_bytes e w)"]
    by simp
  show ?thesis using dl m fr by (metis snd_conv)
qed

theorem integrity_gate_witness:
  "urlopen_read bad_env = Inr [9] \<and> sha256_digest bad_env [9] \<noteq> FONT_SHA256
   \<and> fst (existing_font_bytes bad_env empty_world) = Inr None
   \<and> main bad_env default_args empty_world =
       (Inl (RuntimeError (''Downloaded font does not match expected SHA-256. ''
          @ ''Expected b85c38ecea8a7cfb39c24e395a4007474fa5a4fc864f6ee33309eb4948d232d5, ''
          @ ''got 00.'')), empty_world)"
proof -
  have a: "urlopen_read bad_env = Inr [9]" by (simp add: bad_env_def)
  have b: "sha256_digest bad_env [9] \<noteq> FONT_SHA256"
    by (simp add: bad_env_def sha256_digest_def good_font_def FONT_SHA256_def)
  have s: "sha256_digest bad_env [9] = ''00''"
    by (simp add: bad_env_def sha256_digest_def good_font_def)
  have c: "existing_font_bytes bad_env empty_world = (Inr None, empty_world)"
    by (simp add: existing_font_bytes_def FONT_TARGETS_def path_exists_def empty_world_def)
  have f: "\<not> force default_args" by (simp add: default_args_def)
  show ?thesis
    using integrity_gate[OF a b, of default_args empty_world] a b c f
    by (simp add: s FONT_SHA256_def)
qed

subsection \<open>\<open>main\<close>\<close>

lemma ensure_targets_success:
  assumes "ensure_targets e fb f d w = (Inr u, w')"
  shows "stdout w' = stdout w @ concat (map (status_lines e f d w) (FONT_TARGETS e))"
    and "stderr w' = stderr w @ concat (map (warning_lines f w) (FONT_TARGETS e))"
    and "readonly w' = readonly w"
    and "\<And>t. t \<in> set (FONT_TARGETS e) \<Longrightarrow>
           fs w' t = (if skipped e f w t \<or> d then fs w t else Some (File fb))"
    and "\<And>t q. t \<in> set (FONT_TARGETS e) \<Longrightarrow> prefix q (parent t) \<Longrightarrow> fs w' q = Some Dir"
  using loop_success[OF assms[unfolded ensure_targets_def] layout_FONT_TARGETS] by blast+

lemma ensure_targets_dry_frame:
  assumes "ensure_targets e fb f True w = (r, w')"
  shows "fs w' p = fs w p \<or> (fs w p = None \<and> fs w' p = Some Dir)"
    and "t \<in> set (FONT_TARGETS e) \<Longrightarrow> fs w' t = fs w t"
proof -
  note fr = loop_frame[OF assms[unfolded ensure_targets_def]]
  show "fs w' p = fs w p \<or> (fs w p = None \<and> fs w' p = Some Dir)"
    using fr[of p] by blast
  show "fs w' t = fs w t" if "t \<in> set (FONT_TARGETS e)"
    using fr[of t] FONT_TARGETS_not_ancestor[OF that] by blast
qed

text \<open>
  The two ways \<open>main\<close> can go, whatever \<open>dry_run\<close> is: it stops before \<open>ensure_targets\<close>
  with the error of the probe or of the download, or it hands bytes with the pinned digest
  to \<open>ensure_targets\<close>.
\<close>

lemma main_split [case_names stopped distributed]:
  obtains err w1 where "fs w1 = fs w" "stdout w1 = stdout w" "readonly w1 = readonly w"
      "\<And>d. main e (a\<lparr>dry_run := d\<rparr>) w = (Inl err, w1)" "\<not> distributes e a w"
  | fb w1 where "fs w1 = fs w" "stdout w1 = stdout w" "readonly w1 = readonly w"
      "sha256_digest e fb = FONT_SHA256"
      "force a \<longrightarrow> w1 = w \<and> urlopen_read e = Inr fb"
      "\<not> force a \<longrightarrow> existing_font_bytes e w = (Inr (Some fb), w1)
          \<or> (existing_font_bytes e w = (Inr None, w1) \<and> urlopen_read e = Inr fb)"
      "\<And>d. main e (a\<lparr>dry_run := d\<rparr>) w =
         (case ensure_targets e fb (force a) d w1 of
            (Inl err, w2) \<Rightarrow> (Inl err, w2)
          | (Inr u, w2) \<Rightarrow> (Inr 0, w2))"
      "distributes e a w"
proof -
  obtain c w1 where pr: "(if force a then (Inr None, w) else existing_font_bytes e w) = (c, w1)"
    by force
  have w1: "fs w1 = fs w" "stdout w1 = stdout w" "readonly w1 = readonly w"
    using pr probe_frame[of e w c w1] by (auto split: if_splits)
  have fw: "force a \<longrightarrow> w1 = w \<and> c = Inr None" using pr by auto
  have nf: "\<not> force a \<longrightarrow> existing_font_bytes e w = (c, w1)" using pr by auto
  show thesis
  proof (cases c)
    case (Inl err)
    have "\<And>d. main e (a\<lparr>dry_run := d\<rparr>) w = (Inl err, w1)"
      using pr Inl by (simp add: main_def)
    moreover have "\<not> distributes e a w" using pr Inl by (simp add: distributes_def)
    ultimately show thesis using that(1)[of w1 err] w1 by blast
  next
    case (Inr found)
    show thesis
    proof (cases found)
      case None
      show thesis
      proof (cases "download_font e")
        case (Inl err)
        have "\<And>d. main e (a\<lparr>dry_run := d\<rparr>) w = (Inl err, w1)"
          using pr Inr None Inl by (simp add: main_def)
        moreover have "\<not> distributes e a w"
          using pr Inr None Inl by (simp add: distributes_def)
        ultimately show thesis using that(1)[of w1 err] w1 by blast
      next
        case (Inr fb)
        note dl = download_font_Inr[OF Inr]
        have m: "\<And>d. main e (a\<lparr>dry_run := d\<rparr>) w =
           (case ensure_targets e fb (force a) d w1 of
              (Inl err, w2) \<Rightarrow> (Inl err, w2)
            | (Inr u, w2) \<Rightarrow> (Inr 0, w2))"
          using pr \<open>c = Inr found\<close> None Inr by (simp add: main_def)
        have di: "distributes e a w"
          using pr \<open>c = Inr found\<close> None Inr by (simp add: distributes_def)
        have "\<not> force a \<longrightarrow> existing_font_bytes e w = (Inr (Some fb), w1)
          \<or> (existing_font_bytes e w = (Inr None, w1) \<and> urlopen_read e = Inr fb)"
          using nf \<open>c = Inr found\<close> None dl by simp
        then show thesis using that(2)[of w1 fb] w1 dl fw m di by blast
      qed
    next
      case (Some fb)
      then have nfa: "\<not> force a" using fw Inr by auto
      then have ex: "existing_font_bytes e w = (Inr (Some fb), w1)" using pr Inr Some by simp
      note v = probe_Some_valid[OF ex]
      have m: "\<And>d. main e (a\<lparr>dry_run := d\<rparr>) w =
           (case ensure_targets e fb (force a) d w1 of
              (Inl err, w2) \<Rightarrow> (Inl err, w2)
            | (Inr u, w2) \<Rightarrow> (Inr 0, w2))"
        using pr Inr Some by (simp add: main_def)
      have di: "distributes e a w" using pr Inr Some by (simp add: distributes_def)
      show thesis using that(2)[of w1 fb] w1 v nfa ex m di by blast
    qed
  qed
qed

lemma status_lines_cong: "fs w1 = fs w \<Longrightarrow> status_lines e f d w1 = status_lines e f d w"
  by (rule ext, rule lines_same) simp

lemma passable_cong:
  "fs w1 = fs w \<Longrightarrow> readonly w1 = readonly w \<Longrightarrow> passable w1 = passable w"
  by (rule ext) (simp add: passable_def can_mkdir_def exists_raises_def)

lemma skipped_cong: "fs w1 = fs w \<Longrightarrow> skipped e f w1 = skipped e f w"
  by (rule ext) (simp add: skipped_def valid_copy_def)

lemma new_lines_append: "stdout w' = stdout w @ out \<Longrightarrow> new_lines w w' = out"
  by (simp add: new_lines_def)

subsection \<open>Dry runs\<close>

text \<open>
  C4. With \<open>--dry-run\<close>, whatever state the file system was in and however the run ends, no
  file is created or changed anywhere (the only change there can be is a directory created
  where nothing was), and in particular every target path holds what it held. What the run
  prints is known in every case: nothing when \<open>main\<close> stops before \<open>ensure_targets\<close>, and
  otherwise the status lines of the targets up to the first one whose directory cannot be
  made or whose \<open>exists()\<close> raises, where every target not skipped as up to date is reported
  by "Would write font to ..."; when the run completes these are the lines of all targets.
  Against the run without \<open>--dry-run\<close> from the same state: what that run prints, with each
  "Wrote ..." read as "Would write font to ...", is the beginning of what the dry run
  prints, so every target that the real run changes or reports as written is reported by
  the dry run as an intended write, also when either run is cut short by an error.
\<close>

theorem dry_run_writes_nothing:
  assumes "dry_run a" and "main e a w = (r, w')"
  shows "(\<forall>p. fs w' p = fs w p \<or> (fs w p = None \<and> fs w' p = Some Dir))
       \<and> (\<forall>t\<in>set (FONT_TARGETS e). fs w' t = fs w t)
       \<and> (r = Inr 0 \<longrightarrow>
            stdout w' = stdout w @ concat (map (status_lines e (force a) True w) (FONT_TARGETS e))
            \<and> (\<forall>t\<in>set (FONT_TARGETS e). \<not> skipped e (force a) w t \<longrightarrow>
                  ''Would write font to '' @ path_str t \<in> set (stdout w')))
       \<and> stdout w' = stdout w @
            (if distributes e a w
             then concat (map (status_lines e (force a) True w)
                            (takeWhile (passable w) (FONT_TARGETS e)))
             else [])
       \<and> stdout (snd (main e (a\<lparr>dry_run := False\<rparr>) w))
            = stdout w @ new_lines w (snd (main e (a\<lparr>dry_run := False\<rparr>) w))
       \<and> prefix (map intended (new_lines w (snd (main e (a\<lparr>dry_run := False\<rparr>) w))))
            (new_lines w w')
       \<and> (\<forall>t\<in>set (FONT_TARGETS e).
            fs (snd (main e (a\<lparr>dry_run := False\<rparr>) w)) t \<noteq> fs w t
            \<or> ''Wrote '' @ path_str t
                 \<in> set (new_lines w (snd (main e (a\<lparr>dry_run := False\<rparr>) w)))
            \<longrightarrow> ''Would write font to '' @ path_str t \<in> set (new_lines w w'))"
proof -
  have a: "a\<lparr>dry_run := True\<rparr> = a" using assms(1) by simp
  let ?real = "snd (main e (a\<lparr>dry_run := False\<rparr>) w)"
  show ?thesis
    using main_split[of w e a]
  proof cases
    case (stopped err w1)
    have dry: "r = Inl err" "w' = w1" using stopped(4)[of True] a assms(2) by simp_all
    have real: "?real = w1" using stopped(4)[of False] by simp
    have nl: "new_lines w w1 = []" using stopped(2) by (simp add: new_lines_def)
    show ?thesis using dry real nl stopped(1,2,5) by simp
  next
    case (distributed fb w1)
    obtain ru wd where en: "ensure_targets e fb (force a) True w1 = (ru, wd)" by force
    have dry: "r = (case ru of Inl err \<Rightarrow> Inl err | Inr u \<Rightarrow> Inr 0)" "w' = wd"
      using distributed(7)[of True] a assms(2) en by (auto split: sum.splits)
    obtain rr wr where er: "ensure_targets e fb (force a) False w1 = (rr, wr)" by force
    have real: "?real = wr" using distributed(7)[of False] er by (auto split: sum.splits)
    note sl = status_lines_cong[OF distributed(1), of e "force a" True]
    note pc = passable_cong[OF distributed(1,3)]
    note fr = ensure_targets_dry_frame[OF en]
    have c1: "\<forall>p. fs w' p = fs w p \<or> (fs w p = None \<and> fs w' p = Some Dir)"
      using fr(1) distributed(1) dry(2) by simp
    have c2: "\<forall>t\<in>set (FONT_TARGETS e). fs w' t = fs w t"
      using fr(2) distributed(1) dry(2) by simp
    note dl = dry_loop_out[OF en[unfolded ensure_targets_def] layout_FONT_TARGETS]
    have out: "stdout w' = stdout w
        @ concat (map (status_lines e (force a) True w)
                    (takeWhile (passable w) (FONT_TARGETS e)))"
      using dl dry(2) distributed(2) by (simp add: sl pc)
    have c4: "stdout w' = stdout w @
            (if distributes e a w
             then concat (map (status_lines e (force a) True w)
                            (takeWhile (passable w) (FONT_TARGETS e)))
             else [])"
      using out distributed(8) by simp
    have nld: "new_lines w w' = concat (map (status_lines e (force a) True w)
                    (takeWhile (passable w) (FONT_TARGETS e)))"
      using new_lines_append[OF out] .
    have c3: "stdout w' = stdout w @ concat (map (status_lines e (force a) True w) (FONT_TARGETS e))
      \<and> (\<forall>t\<in>set (FONT_TARGETS e). \<not> skipped e (force a) w t \<longrightarrow>
                  ''Would write font to '' @ path_str t \<in> set (stdout w'))"
      if "r = Inr 0"
    proof -
      from that dry(1) obtain u where "ru = Inr u" by (cases ru) auto
      with en dry(2) have en': "ensure_targets e fb (force a) True w1 = (Inr u, w')" by simp
      have o: "stdout w' = stdout w
          @ concat (map (status_lines e (force a) True w) (FONT_TARGETS e))"
        using ensure_targets_success(1)[OF en'] distributed(2) sl by simp
      have "''Would write font to '' @ path_str t \<in> set (stdout w')"
        if "t \<in> set (FONT_TARGETS e)" "\<not> skipped e (force a) w t" for t
      proof -
        have "''Would write font to '' @ path_str t \<in> set (status_lines e (force a) True w t)"
          using that(2) by (simp add: status_lines_def)
        then show ?thesis using that(1) o by auto
      qed
      with o show ?thesis by blast
    qed
    obtain outr where o1: "stdout wr = stdout w1 @ outr"
      and o2: "prefix (map intended outr)
            (concat (map (status_lines e (force a) True w1)
                       (takeWhile (passable w1) (FONT_TARGETS e))))"
      and o3: "\<forall>t\<in>set (FONT_TARGETS e). fs wr t \<noteq> fs w1 t \<longrightarrow>
                 ''Wrote '' @ path_str t \<in> set outr"
      using real_loop_out[OF er[unfolded ensure_targets_def] layout2_FONT_TARGETS] by blast
    have o1': "stdout wr = stdout w @ outr" using o1 distributed(2) by simp
    have nlr: "new_lines w wr = outr" using new_lines_append[OF o1'] .
    have c5: "stdout ?real = stdout w @ new_lines w ?real" using o1' nlr real by simp
    have c6: "prefix (map intended (new_lines w ?real)) (new_lines w w')"
      using o2 nlr nld real by (simp add: sl pc)
    have c7: "''Would write font to '' @ path_str t \<in> set (new_lines w w')"
      if t: "t \<in> set (FONT_TARGETS e)"
        and ch: "fs ?real t \<noteq> fs w t \<or> ''Wrote '' @ path_str t \<in> set (new_lines w ?real)"
      for t
    proof -
      have "''Wrote '' @ path_str t \<in> set outr"
        using ch o3 t real nlr distributed(1) by auto
      then have "intended (''Wrote '' @ path_str t) \<in> set (map intended outr)" by simp
      then have "''Would write font to '' @ path_str t \<in> set (map intended outr)"
        by (simp only: intended_simps(1))
      then show ?thesis using c6 nlr real set_mono_prefix by fastforce
    qed
    from c1 c2 c3 c4 c5 c6 c7 show ?thesis by blast
  qed
qed

subsection \<open>Runs that complete\<close>

lemma ensure_target_tmp:
  assumes run: "ensure_target e fb f d t w = (r, w')" and tmp: "tmp_path t = Inr tmp"
  shows "fs w' tmp = None \<or> fs w' tmp = fs w tmp \<or> fs w' tmp = Some (File fb)
         \<or> (fs w tmp = None \<and> fs w' tmp = Some Dir \<and> prefix tmp (parent t))"
  using run
proof (cases rule: ensure_target_cases)
  case (mkdir_failed err w1)
  then show ?thesis using mkdir_parents_frame[OF mkdir_failed(1), of tmp] by auto
next
  case (exists_failed err w1)
  then show ?thesis
    using mkdir_parents_frame[OF exists_failed(1), of tmp]
      check_existing_char(1)[OF exists_failed(2)] by auto
next
  case (up_to_date w1)
  then show ?thesis
    using mkdir_parents_frame[OF up_to_date(1), of tmp]
      check_existing_char(1)[OF up_to_date(2)] by auto
next
  case (dry w1 w2)
  then show ?thesis
    using mkdir_parents_frame[OF dry(1), of tmp] check_existing_char(1)[OF dry(2)]
    by (auto simp: print_def)
next
  case (no_tmp w1 err)
  then show ?thesis using tmp by simp
next
  case (write_failed w1 tmp' err)
  then show ?thesis
    using mkdir_parents_frame[OF write_failed(1), of tmp]
      check_existing_char(1)[OF write_failed(2)] by auto
next
  case (replace_failed w1 w2 tmp' err)
  then have "tmp' = tmp" using tmp by simp
  then show ?thesis using write_bytes_Inr[OF replace_failed(5)] by simp
next
  case (wrote w1 w2 w3 w4 tmp')
  then have "tmp' = tmp" using tmp by simp
  then show ?thesis
    using replace_Inr[OF wrote(6)] wrote(8) by (simp add: print_def)
qed

lemma unobstructedD:
  assumes "unobstructed w ts" "t \<in> set ts"
  shows "readonly w = {}"
    and "\<forall>q\<in>set (prefixes (parent t)). fs w q = None \<or> fs w q = Some Dir"
    and "plain (fs w t)"
    and "\<exists>tmp. tmp_path t = Inr tmp \<and> plain (fs w tmp)"
    and "passable w t"
proof -
  from assms have a: "readonly w = {}"
    and b: "(\<forall>q\<in>set (prefixes (parent t)). fs w q = None \<or> fs w q = Some Dir)
         \<and> plain (fs w t)
         \<and> (case tmp_path t of Inr tmp \<Rightarrow> plain (fs w tmp) | Inl _ \<Rightarrow> False)"
    unfolding unobstructed_def by blast+
  show "readonly w = {}" by (rule a)
  show "\<forall>q\<in>set (prefixes (parent t)). fs w q = None \<or> fs w q = Some Dir"
    using b by blast
  show "plain (fs w t)" using b by blast
  show "\<exists>tmp. tmp_path t = Inr tmp \<and> plain (fs w tmp)"
    using b by (cases "tmp_path t") simp_all
  have "can_mkdir w (parent t)" using a b by (auto simp: can_mkdir_def)
  moreover have "\<not> exists_raises w t" using b by (auto simp: exists_raises_def plain_def)
  ultimately show "passable w t" by (simp add: passable_def)
qed

lemma plain_cases: "plain n = (n = None \<or> (\<exists>d. n = Some (File d)) \<or> (\<exists>x. n = Some (Unreadable x)))"
  by (auto simp: plain_def split: option.splits node.splits)

lemma ensure_target_runs:
  assumes un: "unobstructed w ts" and lay: "layout2 ts" and t: "t \<in> set ts"
  shows "\<exists>w1. ensure_target e fb f d t w = (Inr (), w1) \<and> unobstructed w1 ts"
proof -
  note ro = unobstructedD(1)[OF un t]
  note tnd = unobstructedD(3)[OF un t]
  note pass = unobstructedD(5)[OF un t]
  obtain tmp where tmp: "tmp_path t = Inr tmp" and tmpnd: "plain (fs w tmp)"
    using unobstructedD(4)[OF un t] by blast
  have l1: "layout ts" using lay by (simp add: layout2_def)
  have ne: "t \<noteq> []" using l1 t by (simp add: layout_def)
  have tmp_anc: "\<not> prefix tmp (parent t')" if "t' \<in> set ts" for t'
    using layout2D[OF lay t that tmp] .
  have t_anc: "\<not> prefix t' (parent t'')" if "t' \<in> set ts" "t'' \<in> set ts" for t' t''
    using l1 that by (simp add: layout_def)
  have cm: "can_mkdir w (parent t)" using pass by (simp add: passable_def)
  obtain r0 w1 where mk0: "mkdir_parents (parent t) w = (r0, w1)" by force
  have "r0 = Inr ()" using mkdir_parents_ok_iff[of "parent t" w] cm mk0 by simp
  then have mk: "mkdir_parents (parent t) w = (Inr (), w1)" using mk0 by simp
  note sh = mkdir_parents_shape[OF mk]
  have w1t: "fs w1 t = fs w t" using mkdir_parents_target[OF mk ne] .
  have w1tmp: "fs w1 tmp = fs w tmp"
    using mkdir_parents_frame[OF mk, of tmp] tmp_anc[OF t] by blast
  have w1par: "fs w1 (parent t) = Some Dir"
    using mkdir_parents_made[OF mk, of "parent t"] by simp
  obtain r w' where run: "ensure_target e fb f d t w = (r, w')" by force
  have ok: "r = Inr ()"
    using run
  proof (cases rule: ensure_target_cases)
    case (mkdir_failed err w1')
    then show ?thesis using mk by simp
  next
    case (exists_failed err w1')
    then have e1: "w1' = w1" using mk by simp
    have "exists_raises w1 t"
      using check_existing_char(3)[OF exists_failed(2)[unfolded e1]] by (auto split: if_splits)
    then show ?thesis using w1t tnd by (simp add: exists_raises_def plain_def)
  next
    case (no_tmp w1' err)
    then show ?thesis using tmp by simp
  next
    case (write_failed w1' tmp' err)
    then have e1: "w1' = w1" "tmp' = tmp" using mk tmp by simp_all
    note c = check_existing_char(1,2)[OF write_failed(2)[unfolded e1]]
    have "write_bytes tmp fb w' = Inr (w'\<lparr>fs := (fs w')(tmp \<mapsto> File fb)\<rparr>)"
      using c sh ro w1tmp tmpnd w1par tmp_path_parent[OF tmp]
      by (simp add: write_bytes_def)
    then show ?thesis using write_failed(5) e1 by simp
  next
    case (replace_failed w1' w2 tmp' err)
    then have e1: "w1' = w1" "tmp' = tmp" using mk tmp by simp_all
    note c = check_existing_char(1,2)[OF replace_failed(2)[unfolded e1]]
    note wr = write_bytes_Inr[OF replace_failed(5)[unfolded e1]]
    have neq: "tmp \<noteq> t" using tmp_path_neq[OF tmp] .
    have "replace tmp t w' = Inr (w'\<lparr>fs := (fs w')(t := fs w' tmp, tmp := None)\<rparr>)"
      using c sh ro wr w1t tnd neq by (simp add: replace_def)
    then show ?thesis using replace_failed(6) e1 by simp
  qed simp_all
  have ro': "readonly w' = {}"
    using ensure_target_success(3)[OF run[unfolded ok] ne] ro by simp
  have ft: "fs w' t = fs w t \<or> fs w' t = Some (File fb)"
    using ensure_target_success(4)[OF run[unfolded ok] ne] by (simp split: if_splits)
  have ftmp: "plain (fs w' tmp)"
    using ensure_target_tmp[OF run tmp] tmpnd tmp_anc[OF t] by (auto simp: plain_def)
  have other: "fs w' p = fs w p \<or> (fs w p = None \<and> fs w' p = Some Dir \<and> prefix p (parent t))"
    if "p \<noteq> t" "p \<noteq> tmp" for p
    using ensure_target_frame[OF run, of p] that tmp by auto
  have inv: "(\<forall>q\<in>set (prefixes (parent t')). fs w' q = None \<or> fs w' q = Some Dir)
      \<and> plain (fs w' t')
      \<and> (case tmp_path t' of Inr tmp' \<Rightarrow> plain (fs w' tmp') | Inl _ \<Rightarrow> False)"
    if t': "t' \<in> set ts" for t'
  proof -
    note anc' = unobstructedD(2)[OF un t']
    note tnd' = unobstructedD(3)[OF un t']
    obtain tmp' where tmp': "tmp_path t' = Inr tmp'" and tmpnd': "plain (fs w tmp')"
      using unobstructedD(4)[OF un t'] by blast
    have a: "fs w' q = None \<or> fs w' q = Some Dir" if q: "q \<in> set (prefixes (parent t'))" for q
    proof -
      have pq: "prefix q (parent t')" using q by (simp add: in_set_prefixes)
      have "q \<noteq> t" using t_anc[OF t t'] pq by auto
      moreover have "q \<noteq> tmp" using tmp_anc[OF t'] pq by auto
      ultimately show ?thesis using other[of q] anc' q by auto
    qed
    have b: "plain (fs w' t')"
    proof (cases "t' = t")
      case True
      then show ?thesis using ft tnd by (auto simp: plain_def)
    next
      case False
      have "tmp_path t \<noteq> Inr t'" using l1 t t' by (simp add: layout_def)
      then have "t' \<noteq> tmp" using tmp by auto
      then show ?thesis using other[of t'] False tnd' t_anc[OF t' t] by auto
    qed
    have c: "plain (fs w' tmp')"
    proof (cases "tmp' = tmp")
      case True
      then show ?thesis using ftmp by simp
    next
      case False
      have "tmp_path t' \<noteq> Inr t" using l1 t t' by (simp add: layout_def)
      then have "tmp' \<noteq> t" using tmp' by auto
      moreover have "\<not> prefix tmp' (parent t)"
        using layout2D[OF lay t' t tmp'] .
      ultimately show ?thesis using other[of tmp'] False tmpnd' by auto
    qed
    from a b c tmp' show ?thesis by simp
  qed
  have "unobstructed w' ts" using ro' inv by (simp add: unobstructed_def)
  with run ok show ?thesis by blast
qed

lemma loop_runs:
  assumes "unobstructed w ts" "layout2 ts" "set rest \<subseteq> set ts"
  shows "\<exists>w'. ensure_targets_loop e fb f d rest w = (Inr (), w') \<and> unobstructed w' ts"
  using assms
proof (induction rest arbitrary: w)
  case Nil
  then show ?case by simp
next
  case (Cons t rest)
  have t: "t \<in> set ts" and sub: "set rest \<subseteq> set ts" using Cons.prems(3) by auto
  obtain w1 where it: "ensure_target e fb f d t w = (Inr (), w1)" and un1: "unobstructed w1 ts"
    using ensure_target_runs[OF Cons.prems(1,2) t] by blast
  obtain w' where "ensure_targets_loop e fb f d rest w1 = (Inr (), w')" "unobstructed w' ts"
    using Cons.IH[OF un1 Cons.prems(2) sub] by blast
  then show ?case using it by simp
qed

lemma ensure_targets_runs:
  assumes "unobstructed w (FONT_TARGETS e)"
  shows "\<exists>w'. ensure_targets e fb f d w = (Inr (), w') \<and> unobstructed w' (FONT_TARGETS e)"
  unfolding ensure_targets_def
  using loop_runs[OF assms layout2_FONT_TARGETS subset_refl] .

lemma unobstructed_cong:
  "fs w1 = fs w \<Longrightarrow> readonly w1 = readonly w \<Longrightarrow> unobstructed w1 ts = unobstructed w ts"
  by (simp add: unobstructed_def cong: sum.case_cong)

lemma unobstructed_probe:
  assumes "unobstructed w (FONT_TARGETS e)"
  shows "probe_result e w (FONT_TARGETS e) =
           (case find (valid_copy e w) (FONT_TARGETS e) of
              None \<Rightarrow> Inr None | Some t \<Rightarrow> Inr (file_bytes w t))"
proof -
  have "\<not> exists_raises w t" if "t \<in> set (FONT_TARGETS e)" for t
    using unobstructedD(5)[OF assms that] by (simp add: passable_def)
  then have st: "stops_probe e w t = valid_copy e w t" if "t \<in> set (FONT_TARGETS e)" for t
    using that by (simp add: stops_probe_def)
  have f: "find (stops_probe e w) (FONT_TARGETS e) = find (valid_copy e w) (FONT_TARGETS e)"
    by (rule find_cong[OF refl]) (rule st)
  show ?thesis
  proof (cases "find (valid_copy e w) (FONT_TARGETS e)")
    case None
    then show ?thesis using f by (simp add: probe_result_def)
  next
    case (Some t)
    then have "t \<in> set (FONT_TARGETS e)" by (auto simp: find_Some_iff in_set_conv_nth)
    then have "\<not> exists_raises w t"
      using unobstructedD(5)[OF assms] by (simp add: passable_def)
    then show ?thesis using f Some by (simp add: probe_result_def)
  qed
qed

lemma main_runs:
  assumes un: "unobstructed w (FONT_TARGETS e)"
    and src: "(\<not> force a \<and> (\<exists>t\<in>set (FONT_TARGETS e). valid_copy e w t))
              \<or> (\<exists>fb. urlopen_read e = Inr fb \<and> sha256_digest e fb = FONT_SHA256)"
  shows "\<exists>w'. main e a w = (Inr 0, w')"
  using main_split[of w e a]
proof cases
  case (stopped err w1)
  have "distributes e a w"
  proof (cases "force a")
    case True
    with src obtain fb where "urlopen_read e = Inr fb" "sha256_digest e fb = FONT_SHA256"
      by blast
    then have "download_font e = Inr fb" by (simp add: download_font_def Let_def)
    then show ?thesis using True by (simp add: distributes_def)
  next
    case False
    obtain w1 where pr: "existing_font_bytes e w
        = (case find (valid_copy e w) (FONT_TARGETS e) of
              None \<Rightarrow> Inr None | Some t \<Rightarrow> Inr (file_bytes w t), w1)"
      unfolding existing_font_bytes_def probe_loop_char unobstructed_probe[OF un] by blast
    show ?thesis
    proof (cases "find (valid_copy e w) (FONT_TARGETS e)")
      case None
      then have "\<not> (\<exists>t\<in>set (FONT_TARGETS e). valid_copy e w t)"
        by (auto simp: find_None_iff)
      with src obtain fb where "urlopen_read e = Inr fb" "sha256_digest e fb = FONT_SHA256"
        by blast
      then have "download_font e = Inr fb" by (simp add: download_font_def Let_def)
      then show ?thesis using False pr None by (simp add: distributes_def)
    next
      case (Some t)
      then have "valid_copy e w t" by (auto simp: find_Some_iff)
      then obtain d where "file_bytes w t = Some d"
        by (auto simp: valid_copy_def file_bytes_def split: option.splits node.splits)
      then show ?thesis using False pr Some by (simp add: distributes_def)
    qed
  qed
  with stopped(5) show ?thesis by simp
next
  case (distributed fb w1)
  have un1: "unobstructed w1 (FONT_TARGETS e)"
    using un unobstructed_cong[OF distributed(1,3)] by simp
  obtain w' where en: "ensure_targets e fb (force a) (dry_run a) w1 = (Inr (), w')"
    using ensure_targets_runs[OF un1] by blast
  have "main e (a\<lparr>dry_run := dry_run a\<rparr>) w = (Inr 0, w')"
    using distributed(7)[of "dry_run a"] en by simp
  then show ?thesis by auto
qed

subsection \<open>Concrete runs\<close>

lemma unobstructedI:
  assumes ro: "readonly w = {}"
    and only: "\<And>p. fs w p = None \<or> (p \<in> set (FONT_TARGETS e) \<and> plain (fs w p))"
  shows "unobstructed w (FONT_TARGETS e)"
proof -
  have "(\<forall>q\<in>set (prefixes (parent t)). fs w q = None \<or> fs w q = Some Dir)
      \<and> plain (fs w t)
      \<and> (case tmp_path t of Inr tmp \<Rightarrow> plain (fs w tmp) | Inl _ \<Rightarrow> False)"
    if t: "t \<in> set (FONT_TARGETS e)" for t
  proof -
    have a: "fs w q = None \<or> fs w q = Some Dir" if "q \<in> set (prefixes (parent t))" for q
    proof -
      have "prefix q (parent t)" using that by (simp add: in_set_prefixes)
      then have "q \<notin> set (FONT_TARGETS e)" using FONT_TARGETS_not_ancestor[OF _ t] by blast
      then show ?thesis using only[of q] by blast
    qed
    have b: "plain (fs w t)" using only[of t] by (auto simp: plain_def)
    have "t \<noteq> []" "last t \<noteq> []" using FONT_TARGETS_names[OF t] by (simp_all add: FONT_FILENAME_def)
    then obtain tmp where tmp: "tmp_path t = Inr tmp" using tmp_path_ok by blast
    have "plain (fs w tmp)" using only[of tmp] by (auto simp: plain_def)
    with a b tmp show ?thesis by simp
  qed
  with ro show ?thesis by (simp add: unobstructed_def)
qed


lemma unobstructed_mixed_world: "unobstructed mixed_world (FONT_TARGETS env0)"
  by (rule unobstructedI)
    (simp_all add: mixed_world_def FONT_TARGETS_env0 good_font_def plain_def)

lemma env0_fetch: "urlopen_read env0 = Inr good_font" "download_font env0 = Inr good_font"
  by (simp_all add: env0_def download_font_def sha256_digest_def Let_def)

subsection \<open>Runs in the concrete worlds\<close>

lemma blocked_world_facts:
  "fs blocked_world target1 = None"
  "fs blocked_world target2 = None"
  "fs blocked_world target3 = None"
  "stdout blocked_world = []"
  "stderr blocked_world = []"
  "passable blocked_world target1"
  "\<not> passable blocked_world target2"
  by (simp_all add: blocked_world_def target1_def target2_def target3_def passable_def
      can_mkdir_def exists_raises_def parent_def)

lemma blocked_world_probe:
  "existing_font_bytes env0 blocked_world = (Inr None, blocked_world)"
  by (simp add: existing_font_bytes_def FONT_TARGETS_env0 path_exists_def blocked_world_facts)

lemma blocked_world_distributes: "distributes env0 dry_args blocked_world"
  by (simp add: distributes_def dry_args_def blocked_world_probe env0_fetch)

lemma blocked_world_first:
  "fst (ensure_target env0 good_font False False target1 blocked_world) = Inr ()"
  by (simp add: ensure_target_def mkdir_parents_def parent_def target1_def
      blocked_world_def check_existing_def path_exists_def tmp_path_def
      with_suffix_def suffix_of_def write_bytes_def replace_def plain_def print_def Let_def)

lemma blocked_world_real_run:
  "fs (snd (main env0 default_args blocked_world)) target1 = Some (File good_font)"
proof -
  obtain w1 where it: "ensure_target env0 good_font False False target1 blocked_world
      = (Inr (), w1)"
    using blocked_world_first by (cases "ensure_target env0 good_font False False target1 blocked_world") auto
  have ne: "target1 \<noteq> []" by (simp add: target1_def)
  have f1: "fs w1 target1 = Some (File good_font)"
    using ensure_target_success(4)[OF it ne]
    by (simp add: skipped_def valid_copy_def blocked_world_facts)
  obtain r w' where rest: "ensure_targets_loop env0 good_font False False [target2, target3] w1
      = (r, w')" by force
  have "tmp_path target2 \<noteq> Inr target1" "tmp_path target3 \<noteq> Inr target1"
    using tmp_path_not_same_name[of target1 target2] tmp_path_not_same_name[of target1 target3]
    by (simp_all add: target1_def target2_def target3_def)
  then have "fs w' target1 = fs w1 target1"
    using loop_frame[OF rest, of target1] f1 by (auto simp: targets_distinct)
  moreover have "snd (main env0 default_args blocked_world) = w'"
    using it rest
    by (simp add: main_def default_args_def blocked_world_probe env0_fetch ensure_targets_def
        FONT_TARGETS_env0 split: sum.splits)
  ultimately show ?thesis using f1 by simp
qed

theorem dry_run_writes_nothing_witness:
  "dry_run dry_args
   \<and> stdout (snd (main env0 dry_args blocked_world)) =
       [''Would write font to /repo/OWML_fonts_patch/Fonts/NotoSans-Regular.ttf'']
   \<and> fs (snd (main env0 dry_args blocked_world)) target1 = None
   \<and> fs (snd (main env0 default_args blocked_world)) target1 = Some (File good_font)"
proof -
  have d: "dry_run dry_args" "\<not> force dry_args" by (simp_all add: dry_args_def)
  have t1: "target1 \<in> set (FONT_TARGETS env0)" by (simp add: FONT_TARGETS_env0)
  have sl: "status_lines env0 False True blocked_world target1 =
      [''Would write font to /repo/OWML_fonts_patch/Fonts/NotoSans-Regular.ttf'']"
    by (simp add: status_lines_def skipped_def valid_copy_def file_bytes_def
        blocked_world_facts path_str_targets)
  show ?thesis
    using dry_run_writes_nothing[OF d(1), of env0 blocked_world
        "fst (main env0 dry_args blocked_world)" "snd (main env0 dry_args blocked_world)"]
      t1 d blocked_world_distributes blocked_world_real_run
    by (simp add: FONT_TARGETS_env0 blocked_world_facts sl)
qed

subsection \<open>Directories and unreadable targets\<close>




end
